theory Spec2Isabelle
  imports Main "HOL-Library.Sublist"
begin

section \<open>Terminal hub (terminal.ts)\<close>

text \<open>
  A \<open>Buffer\<close> is a sequence of bytes; Isabelle characters are bytes, so a buffer is a
  \<open>string\<close>.  A \<open>TerminalClient\<close> is an object with a \<open>write\<close> method; the
  model names each client object by a number and records every call of its \<open>write\<close>
  in the log \<open>sink_writes\<close>, oldest call first.  Calls of \<open>terminal.write\<close> are
  recorded in \<open>term_writes\<close> with the handle they went to.
\<close>

type_synonym buffer = string
type_synonym client = nat

record proc =
  pid :: nat
  killed :: bool
  exited :: bool

text \<open>
  The module-level variables of terminal.ts: \<open>terminal\<close>, \<open>shellProc\<close>,
  \<open>clients\<close> (a JavaScript \<open>Set\<close>, which iterates in insertion order: a list
  without repetition), \<open>scrollbackChunks\<close>, \<open>scrollbackSize\<close> and
  \<open>tmuxSession\<close>.  \<open>scrollbackSize\<close> is a JavaScript number that is only added to
  and subtracted from, so it is an \<open>int\<close>.
\<close>

record hub =
  terminal :: "nat option"
  shellProc :: "proc option"
  clients :: "client list"
  scrollbackChunks :: "buffer list"
  scrollbackSize :: int
  tmuxSession :: "string option"
  sink_writes :: "(client \<times> buffer) list"
  term_writes :: "(nat \<times> buffer) list"

definition MAX_SCROLLBACK :: int where
  "MAX_SCROLLBACK = 512 * 1024"

text \<open>The state of the module when it is loaded.\<close>

definition initial_hub :: hub where
  "initial_hub = \<lparr>terminal = None, shellProc = None, clients = [],
     scrollbackChunks = [], scrollbackSize = 0, tmuxSession = None,
     sink_writes = [], term_writes = []\<rparr>"

text \<open>
  The loop of \<open>appendScrollback\<close>:
  \<^verbatim>\<open>while (scrollbackSize > MAX_SCROLLBACK && scrollbackChunks.length > 1) {
    const removed = scrollbackChunks.shift();
    if (removed) scrollbackSize -= removed.length;
  }\<close>
  \<open>shift\<close> removes and returns the first element; a \<open>Buffer\<close> is an object and so
  always truthy.
\<close>

function trim_front :: "buffer list \<Rightarrow> int \<Rightarrow> buffer list \<times> int" where
  "trim_front chunks sz =
     (if sz > MAX_SCROLLBACK \<and> length chunks > 1
      then (case chunks of
              [] \<Rightarrow> (chunks, sz)
            | removed # rest \<Rightarrow> trim_front rest (sz - int (length removed)))
      else (chunks, sz))"
  by pat_completeness auto
termination
  by (relation "measure (\<lambda>(chunks, sz). length chunks)") auto

declare trim_front.simps [simp del]

definition appendScrollback :: "buffer \<Rightarrow> hub \<Rightarrow> hub" where
  "appendScrollback buf h =
     (let chunks = scrollbackChunks h @ [buf];
          sz = scrollbackSize h + int (length buf);
          (chunks', sz') = trim_front chunks sz
      in h\<lparr>scrollbackChunks := chunks', scrollbackSize := sz'\<rparr>)"

definition getScrollbackBuffer :: "hub \<Rightarrow> buffer" where
  "getScrollbackBuffer h = concat (scrollbackChunks h)"

definition client_write :: "client \<Rightarrow> buffer \<Rightarrow> hub \<Rightarrow> hub" where
  "client_write c d h = h\<lparr>sink_writes := sink_writes h @ [(c, d)]\<rparr>"

text \<open>\<open>writeToTerminal\<close>: \<^verbatim>\<open>if (terminal) terminal.write(data);\<close>\<close>

definition writeToTerminal :: "buffer \<Rightarrow> hub \<Rightarrow> hub" where
  "writeToTerminal d h =
     (case terminal h of
        None \<Rightarrow> h
      | Some t \<Rightarrow> h\<lparr>term_writes := term_writes h @ [(t, d)]\<rparr>)"

text \<open>
  \<open>addClient\<close> is two statements, in this order: \<^verbatim>\<open>clients.add(client)\<close>, then
  \<^verbatim>\<open>if (scrollbackSize > 0) client.write(getScrollbackBuffer())\<close>.
\<close>

definition clients_add :: "client \<Rightarrow> hub \<Rightarrow> hub" where
  "clients_add c h =
     (if c \<in> set (clients h) then h else h\<lparr>clients := clients h @ [c]\<rparr>)"

definition send_scrollback :: "client \<Rightarrow> hub \<Rightarrow> hub" where
  "send_scrollback c h =
     (if scrollbackSize h > 0 then client_write c (getScrollbackBuffer h) h else h)"

definition addClient :: "client \<Rightarrow> hub \<Rightarrow> hub" where
  "addClient c h = send_scrollback c (clients_add c h)"

definition removeClient :: "client \<Rightarrow> hub \<Rightarrow> hub" where
  "removeClient c h = h\<lparr>clients := removeAll c (clients h)\<rparr>"

text \<open>
  The \<open>data\<close> callback that \<open>spawnTerminal\<close> and \<open>attachTerminal\<close> give the
  pseudo-terminal:
  \<^verbatim>\<open>appendScrollback(data); for (const client of clients) client.write(data);\<close>
\<close>

definition on_data :: "buffer \<Rightarrow> hub \<Rightarrow> hub" where
  "on_data d h =
     (let h1 = appendScrollback d h
      in foldl (\<lambda>s c. client_write c d s) h1 (clients h1))"

text \<open>
  \<open>spawnTerminal\<close> and \<open>attachTerminal\<close>.  Whether \<open>findBinary("tmux")\<close> finds the
  binary and the handle of the process that \<open>Bun.spawn\<close> creates come from the
  environment and are parameters.  Both functions throw when tmux is missing, and
  otherwise replace \<open>terminal\<close>, \<open>shellProc\<close> and \<open>tmuxSession\<close> and empty the
  scrollback.
\<close>

datatype hub_error = TmuxNotFound

text \<open>
  The timer that \<open>spawnTerminal\<close> sets runs 500 ms later, as an event of its own:
  \<^verbatim>\<open>if (terminal) terminal.write("claude\r");\<close>
\<close>

definition launch_timer :: "hub \<Rightarrow> hub" where
  "launch_timer h = writeToTerminal (''claude'' @ [CHR 0x0D]) h"

definition install_proc :: "string \<Rightarrow> nat \<Rightarrow> hub \<Rightarrow> hub" where
  "install_proc sessionName p h =
     h\<lparr>terminal := Some p,
       shellProc := Some \<lparr>pid = p, killed = False, exited = False\<rparr>,
       tmuxSession := Some sessionName,
       scrollbackChunks := [],
       scrollbackSize := 0\<rparr>"

definition spawnTerminal :: "bool \<Rightarrow> nat \<Rightarrow> string \<Rightarrow> hub \<Rightarrow> hub_error + hub" where
  "spawnTerminal tmux_found p sessionName h =
     (if \<not> tmux_found then Inl TmuxNotFound else Inr (install_proc sessionName p h))"

definition attachTerminal :: "bool \<Rightarrow> nat \<Rightarrow> string \<Rightarrow> hub \<Rightarrow> hub_error + hub" where
  "attachTerminal tmux_found p sessionName h =
     (if \<not> tmux_found then Inl TmuxNotFound else Inr (install_proc sessionName p h))"

text \<open>
  \<open>killTerminal\<close>: kills the process unless it is already marked killed, and sets
  \<open>terminal\<close> and \<open>shellProc\<close> to \<open>null\<close>.  (Killing the tmux session is outside the
  module's state.)
\<close>

definition killTerminal :: "hub \<Rightarrow> hub" where
  "killTerminal h = h\<lparr>terminal := None, shellProc := None\<rparr>"

text \<open>
  The process ending is an event of the environment: no code of terminal.ts runs, the
  promise \<open>proc.exited\<close> resolves.
\<close>

definition proc_exits :: "hub \<Rightarrow> hub" where
  "proc_exits h = h\<lparr>shellProc := map_option (\<lambda>p. p\<lparr>exited := True\<rparr>) (shellProc h)\<rparr>"

text \<open>
  The lifecycle state of the specification's TerminalSession, read off the module's
  variables: no handle is \<open>Absent\<close>; a handle whose process has ended is \<open>Exited\<close>;
  a handle whose process lives is \<open>Running\<close>; a handle with no process recorded is
  \<open>Starting\<close>, which no call leaves behind, since \<open>spawnTerminal\<close> and
  \<open>attachTerminal\<close> set both variables in one synchronous step.
\<close>

datatype session_state = Absent | Starting | Running | Exited

definition session_state_of :: "hub \<Rightarrow> session_state" where
  "session_state_of h =
     (case terminal h of
        None \<Rightarrow> Absent
      | Some t \<Rightarrow>
          (case shellProc h of
             None \<Rightarrow> Starting
           | Some p \<Rightarrow> if exited p then Exited else Running))"

text \<open>The total number of bytes in a list of chunks.\<close>

definition total_size :: "buffer list \<Rightarrow> int" where
  "total_size chunks = int (length (concat chunks))"

text \<open>The bookkeeping invariant of the scrollback: the counter is the buffered size.\<close>

definition scrollback_consistent :: "hub \<Rightarrow> bool" where
  "scrollback_consistent h \<longleftrightarrow> scrollbackSize h = total_size (scrollbackChunks h)"

text \<open>The hub after the process has produced the chunks \<open>ds\<close>, oldest first.\<close>

definition produce :: "buffer list \<Rightarrow> hub \<Rightarrow> hub" where
  "produce ds h = foldl (\<lambda>s d. on_data d s) h ds"

text \<open>What one client has been sent, in order.\<close>

definition received :: "client \<Rightarrow> hub \<Rightarrow> buffer list" where
  "received c h = map snd (filter (\<lambda>w. fst w = c) (sink_writes h))"

text \<open>The scrollback after the chunks \<open>ds\<close> have been appended, oldest first.\<close>

definition appendAll :: "buffer list \<Rightarrow> hub \<Rightarrow> hub" where
  "appendAll ds h = foldl (\<lambda>s d. appendScrollback d s) h ds"

text \<open>A chunk of 300000 bytes: two of them exceed the cap of 524288 bytes.\<close>

definition chunk300k :: buffer where
  "chunk300k = replicate 300000 (CHR ''x'')"

section \<open>Authentication and admission (ssh-server.ts)\<close>

text \<open>
  \<open>authFailures\<close> is a \<open>Map\<close> from the client's address to \<open>{count, lockedUntil}\<close>.
  Times are the milliseconds of \<open>Date.now()\<close>, natural numbers.  Each call of
  \<open>Date.now()\<close> is a parameter \<open>now\<close> of the function that makes it.
\<close>

record auth_record =
  count :: nat
  lockedUntil :: nat

type_synonym auth_failures = "string \<rightharpoonup> auth_record"

definition MAX_AUTH_FAILURES :: nat where
  "MAX_AUTH_FAILURES = 5"

definition AUTH_LOCKOUT_MS :: nat where
  "AUTH_LOCKOUT_MS = 60000"

definition DEFAULT_MAX_CONNECTIONS :: int where
  "DEFAULT_MAX_CONNECTIONS = 10"

definition recordAuthFailure :: "nat \<Rightarrow> string \<Rightarrow> auth_failures \<Rightarrow> bool \<times> auth_failures" where
  "recordAuthFailure now ip m =
     (let r0 = (case m ip of None \<Rightarrow> \<lparr>count = 0, lockedUntil = 0\<rparr> | Some r \<Rightarrow> r);
          r1 = (if now > lockedUntil r0 \<and> lockedUntil r0 > 0
                then r0\<lparr>count := 0, lockedUntil := 0\<rparr> else r0);
          r2 = r1\<lparr>count := count r1 + 1\<rparr>
      in if count r2 \<ge> MAX_AUTH_FAILURES
         then (True, m(ip \<mapsto> r2\<lparr>lockedUntil := now + AUTH_LOCKOUT_MS\<rparr>))
         else (False, m(ip \<mapsto> r2)))"

definition isLockedOut :: "nat \<Rightarrow> string \<Rightarrow> auth_failures \<Rightarrow> bool \<times> auth_failures" where
  "isLockedOut now ip m =
     (case m ip of
        None \<Rightarrow> (False, m)
      | Some r \<Rightarrow>
          if now > lockedUntil r \<and> lockedUntil r > 0 then (False, m(ip := None))
          else (count r \<ge> MAX_AUTH_FAILURES, m))"

definition clearAuthFailures :: "string \<Rightarrow> auth_failures \<Rightarrow> auth_failures" where
  "clearAuthFailures ip m = m(ip := None)"

text \<open>
  The \<open>AuthContext\<close> of an attempt: its method tag \<open>ctx.method\<close> and, for the
  method \<open>password\<close>, the password supplied.  Passwords are held as the bytes that
  \<open>Buffer.from\<close> makes of them.
\<close>

record auth_ctx =
  ctx_method :: string
  password :: string

definition Buffer_from :: "string \<Rightarrow> buffer" where
  "Buffer_from s = s"

text \<open>
  \<open>crypto.timingSafeEqual\<close> throws when its arguments differ in length, and otherwise
  says whether they are equal.
\<close>

datatype crypto_error = ERR_CRYPTO_TIMING_SAFE_EQUAL_LENGTH

definition timingSafeEqual :: "buffer \<Rightarrow> buffer \<Rightarrow> crypto_error + bool" where
  "timingSafeEqual a b =
     (if length a \<noteq> length b then Inl ERR_CRYPTO_TIMING_SAFE_EQUAL_LENGTH else Inr (a = b))"

text \<open>
  What one run of the \<open>authentication\<close> handler does: the call it makes on the
  context (\<open>ctx.accept()\<close>, \<open>ctx.reject(["password"])\<close>, or an exception leaving
  the handler), the line it logs (\<open>Failed locked\<close> is the line \<open>Auth failed\<close>, with
  the suffix \<open>(locked out for 60s)\<close> when \<open>locked\<close>), the calls of
  \<open>timingSafeEqual\<close> it made, and the map afterwards.
\<close>

datatype auth_action = CtxAccept | CtxReject | Thrown crypto_error

datatype auth_log = AcceptedNoAuth | RejectedLockedOut | Accepted | Failed bool

record auth_result =
  action :: auth_action
  logged :: "auth_log option"
  compared :: "(buffer \<times> buffer) list"
  failures :: auth_failures

definition auth_failed :: "nat \<Rightarrow> string \<Rightarrow> (buffer \<times> buffer) list \<Rightarrow> auth_failures \<Rightarrow> auth_result" where
  "auth_failed now ip cmp m =
     (let (locked, m') = recordAuthFailure now ip m
      in \<lparr>action = CtxReject, logged = Some (Failed locked), compared = cmp, failures = m'\<rparr>)"

text \<open>
  The handler reads the clock in \<open>isLockedOut\<close> (\<open>now1\<close>) and again in
  \<open>recordAuthFailure\<close> (\<open>now2\<close>).  \<open>&&\<close> evaluates \<open>timingSafeEqual\<close> only when
  the lengths are equal.
\<close>

definition authentication ::
  "nat \<Rightarrow> nat \<Rightarrow> string option \<Rightarrow> string \<Rightarrow> auth_ctx \<Rightarrow> auth_failures \<Rightarrow> auth_result" where
  "authentication now1 now2 expectedPassword clientIp ctx m =
     (case expectedPassword of
        None \<Rightarrow>
          \<lparr>action = CtxAccept, logged = Some AcceptedNoAuth, compared = [], failures = m\<rparr>
      | Some expected_pw \<Rightarrow>
          (let (locked, m1) = isLockedOut now1 clientIp m
           in if locked
              then \<lparr>action = CtxReject, logged = Some RejectedLockedOut, compared = [],
                    failures = m1\<rparr>
              else if ctx_method ctx = ''password''
              then (let input = Buffer_from (password ctx);
                        expected = Buffer_from expected_pw
                    in if length input = length expected
                       then (case timingSafeEqual input expected of
                               Inl e \<Rightarrow>
                                 \<lparr>action = Thrown e, logged = None,
                                  compared = [(input, expected)], failures = m1\<rparr>
                             | Inr same \<Rightarrow>
                                 if same
                                 then \<lparr>action = CtxAccept, logged = Some Accepted,
                                       compared = [(input, expected)],
                                       failures = clearAuthFailures clientIp m1\<rparr>
                                 else auth_failed now2 clientIp [(input, expected)] m1)
                       else auth_failed now2 clientIp [] m1)
              else \<lparr>action = CtxReject, logged = None, compared = [], failures = m1\<rparr>))"

text \<open>
  The outcome of an attempt in the specification's words, read off what the handler
  did: \<open>Accept\<close> when it accepted; \<open>RejectLockedOut\<close> when it rejected and logged a
  lockout (the source was locked out, or this failure locked it out); \<open>Reject\<close> for
  every other rejection.  An exception has no outcome.
\<close>

datatype verdict = Accept | Reject | RejectLockedOut

definition verdict_of :: "auth_result \<Rightarrow> verdict option" where
  "verdict_of r =
     (case action r of
        CtxAccept \<Rightarrow> Some Accept
      | Thrown e \<Rightarrow> None
      | CtxReject \<Rightarrow>
          (case logged r of
             Some RejectedLockedOut \<Rightarrow> Some RejectLockedOut
           | Some (Failed locked) \<Rightarrow> Some (if locked then RejectLockedOut else Reject)
           | _ \<Rightarrow> Some Reject))"

text \<open>
  A run of attempts from one address, each with its two clock readings and its
  context, oldest first: the outcomes in order and the map at the end.
\<close>

fun attempts ::
  "string option \<Rightarrow> string \<Rightarrow> (nat \<times> nat \<times> auth_ctx) list \<Rightarrow> auth_failures
     \<Rightarrow> verdict option list \<times> auth_failures" where
  "attempts expectedPassword ip [] m = ([], m)"
| "attempts expectedPassword ip ((now1, now2, ctx) # rest) m =
     (let r = authentication now1 now2 expectedPassword ip ctx m;
          (vs, m') = attempts expectedPassword ip rest (failures r)
      in (verdict_of r # vs, m'))"

text \<open>A wrong credential: the method \<open>password\<close> with a password other than the expected one.\<close>

definition wrong_password :: "string \<Rightarrow> auth_ctx \<Rightarrow> bool" where
  "wrong_password pw ctx \<longleftrightarrow> ctx_method ctx = ''password'' \<and> password ctx \<noteq> pw"

text \<open>
  The state of one \<open>startSSHServer\<close>: the counter \<open>activeConnections\<close>, the map
  \<open>authFailures\<close>, the connections whose handlers the connection callback installed
  (it installs them only after the limit check), the connections it ended with
  \<open>client.end()\<close>, and the terminal hub.
\<close>

record server =
  activeConnections :: int
  authFailures :: auth_failures
  handlers :: "nat list"
  ended :: "nat list"
  term_hub :: hub

definition initial_server :: server where
  "initial_server = \<lparr>activeConnections = 0, authFailures = Map.empty, handlers = [],
     ended = [], term_hub = initial_hub\<rparr>"

text \<open>\<^verbatim>\<open>opts.maxConnections ?? DEFAULT_MAX_CONNECTIONS\<close>\<close>

definition maxConnections_of :: "int option \<Rightarrow> int" where
  "maxConnections_of opt = (case opt of None \<Rightarrow> DEFAULT_MAX_CONNECTIONS | Some n \<Rightarrow> n)"

datatype admission = Admit | Refuse

text \<open>
  The connection callback:
  \<^verbatim>\<open>if (activeConnections >= maxConnections) { client.end(); return; }
  activeConnections++;\<close>
  and then the handlers are installed on the client.
\<close>

definition connection :: "int \<Rightarrow> nat \<Rightarrow> server \<Rightarrow> admission \<times> server" where
  "connection maxConnections c s =
     (if activeConnections s \<ge> maxConnections
      then (Refuse, s\<lparr>ended := ended s @ [c]\<rparr>)
      else (Admit, s\<lparr>activeConnections := activeConnections s + 1,
                     handlers := handlers s @ [c]\<rparr>))"

text \<open>
  The handlers of an admitted connection.  An event on a connection that has no handler
  changes nothing.  \<open>close\<close> and \<open>error\<close> each run \<^verbatim>\<open>activeConnections--\<close>.
\<close>

definition on_close :: "nat \<Rightarrow> server \<Rightarrow> server" where
  "on_close c s =
     (if c \<in> set (handlers s) then s\<lparr>activeConnections := activeConnections s - 1\<rparr> else s)"

definition on_error :: "nat \<Rightarrow> server \<Rightarrow> server" where
  "on_error c s =
     (if c \<in> set (handlers s) then s\<lparr>activeConnections := activeConnections s - 1\<rparr> else s)"

definition on_authentication ::
  "string option \<Rightarrow> nat \<Rightarrow> string \<Rightarrow> nat \<Rightarrow> nat \<Rightarrow> auth_ctx \<Rightarrow> server \<Rightarrow> server" where
  "on_authentication expectedPassword c ip now1 now2 ctx s =
     (if c \<in> set (handlers s)
      then s\<lparr>authFailures :=
               failures (authentication now1 now2 expectedPassword ip ctx (authFailures s))\<rparr>
      else s)"

text \<open>
  The \<open>shell\<close> handler of a session wraps the stream as a \<open>TerminalClient\<close> and calls
  \<open>addClient\<close>; the stream's \<open>close\<close> and \<open>error\<close> handlers call \<open>removeClient\<close>;
  its \<open>data\<close> handler calls \<open>writeToTerminal\<close>.  The idle timer, when it fires, calls
  \<open>client.end()\<close>.
\<close>

definition on_shell :: "nat \<Rightarrow> client \<Rightarrow> server \<Rightarrow> server" where
  "on_shell c sink s =
     (if c \<in> set (handlers s) then s\<lparr>term_hub := addClient sink (term_hub s)\<rparr> else s)"

definition on_stream_end :: "nat \<Rightarrow> client \<Rightarrow> server \<Rightarrow> server" where
  "on_stream_end c sink s =
     (if c \<in> set (handlers s) then s\<lparr>term_hub := removeClient sink (term_hub s)\<rparr> else s)"

definition on_stream_data :: "nat \<Rightarrow> buffer \<Rightarrow> server \<Rightarrow> server" where
  "on_stream_data c d s =
     (if c \<in> set (handlers s) then s\<lparr>term_hub := writeToTerminal d (term_hub s)\<rparr> else s)"

definition on_idle_timeout :: "nat \<Rightarrow> server \<Rightarrow> server" where
  "on_idle_timeout c s =
     (if c \<in> set (handlers s) then s\<lparr>ended := ended s @ [c]\<rparr> else s)"

text \<open>The events the transport delivers, and the server run over a list of them.\<close>

datatype event =
    Connect nat
  | Authentication nat string nat nat auth_ctx
  | Shell nat client
  | StreamData nat buffer
  | StreamEnd nat client
  | IdleTimeout nat
  | Close nat
  | Error nat

fun step :: "int \<Rightarrow> string option \<Rightarrow> server \<Rightarrow> event \<Rightarrow> server" where
  "step maxConnections pw s (Connect c) = snd (connection maxConnections c s)"
| "step maxConnections pw s (Authentication c ip now1 now2 ctx) =
     on_authentication pw c ip now1 now2 ctx s"
| "step maxConnections pw s (Shell c sink) = on_shell c sink s"
| "step maxConnections pw s (StreamData c d) = on_stream_data c d s"
| "step maxConnections pw s (StreamEnd c sink) = on_stream_end c sink s"
| "step maxConnections pw s (IdleTimeout c) = on_idle_timeout c s"
| "step maxConnections pw s (Close c) = on_close c s"
| "step maxConnections pw s (Error c) = on_error c s"

definition run :: "int \<Rightarrow> string option \<Rightarrow> event list \<Rightarrow> server \<Rightarrow> server" where
  "run maxConnections pw evs s = foldl (step maxConnections pw) s evs"

section \<open>Watchdog (process-manager.ts)\<close>

definition MAX_RESTARTS :: nat where
  "MAX_RESTARTS = 10"

text \<open>\<^verbatim>\<open>Math.min(1000 * 2 ** restartCount, 60000)\<close>\<close>

definition backoff_delay :: "nat \<Rightarrow> nat" where
  "backoff_delay restartCount = min (1000 * 2 ^ restartCount) 60000"

text \<open>
  What the environment shows the loop during one iteration: the flag
  \<open>shutdownRequested\<close> at the three places the loop reads it, whether
  \<open>findBinary("tmux")\<close> finds tmux, whether \<open>tmux has-session\<close> succeeds, and the
  handle of the process a restart would create.  One iteration is one exit of the
  process.
\<close>

record exit_obs =
  shutdown_at_head :: bool
  shutdown_at_exit :: bool
  shutdown_after_sleep :: bool
  tmux :: bool
  has_session :: bool
  new_pid :: nat

definition hasTmuxSession :: "exit_obs \<Rightarrow> bool" where
  "hasTmuxSession ob \<longleftrightarrow> tmux ob \<and> has_session ob"

datatype wd_action = Sleep nat | AttachSession string | SpawnSession string

datatype wd_status = Watching | ShutDown | NoProcess | GivenUp | Threw hub_error

text \<open>
  The restart at the end of an iteration:
  \<^verbatim>\<open>if (isAttachMode && hasTmuxSession(currentSessionName)) attachTerminal(...)
  else spawnTerminal(...)\<close>
\<close>

definition restart :: "bool \<Rightarrow> string \<Rightarrow> exit_obs \<Rightarrow> hub \<Rightarrow> wd_action \<times> (hub_error + hub)" where
  "restart isAttachMode currentSessionName ob h =
     (if isAttachMode \<and> hasTmuxSession ob
      then (AttachSession currentSessionName,
            attachTerminal (tmux ob) (new_pid ob) currentSessionName h)
      else (SpawnSession currentSessionName,
            spawnTerminal (tmux ob) (new_pid ob) currentSessionName h))"

text \<open>
  The loop of \<open>watchdog\<close>, run over the exits the environment delivers.  With no exit
  left the loop leaves at \<^verbatim>\<open>if (!proc) break\<close> when there is no process, and is
  otherwise suspended in \<open>await proc.exited\<close>: status \<open>Watching\<close>.  The result is the
  status, the sleeps and restarts performed in order, and the hub.
\<close>

fun watchdog ::
  "bool \<Rightarrow> string \<Rightarrow> nat \<Rightarrow> exit_obs list \<Rightarrow> hub \<Rightarrow> wd_status \<times> wd_action list \<times> hub" where
  "watchdog isAttachMode name restartCount [] h =
     (if shellProc h = None then (NoProcess, [], h) else (Watching, [], h))"
| "watchdog isAttachMode name restartCount (ob # obs) h =
     (if shutdown_at_head ob then (ShutDown, [], h)
      else if shellProc h = None then (NoProcess, [], h)
      else if shutdown_at_exit ob then (ShutDown, [], proc_exits h)
      else if restartCount + 1 > MAX_RESTARTS then (GivenUp, [], proc_exits h)
      else if shutdown_after_sleep ob
      then (ShutDown, [Sleep (backoff_delay (restartCount + 1))], proc_exits h)
      else (case restart isAttachMode name ob (proc_exits h) of
              (act, Inl e) \<Rightarrow>
                (Threw e, [Sleep (backoff_delay (restartCount + 1)), act], proc_exits h)
            | (act, Inr h') \<Rightarrow>
                (case watchdog isAttachMode name (restartCount + 1) obs h' of
                   (st, acts, h'') \<Rightarrow>
                     (st, Sleep (backoff_delay (restartCount + 1)) # act # acts, h''))))"

declare watchdog.simps [simp del]

text \<open>
  For stating what the loop does: an exit during which no shutdown is requested and tmux
  is found, and the action the restart after it performs.
\<close>

definition benign :: "exit_obs \<Rightarrow> bool" where
  "benign ob \<longleftrightarrow>
     \<not> shutdown_at_head ob \<and> \<not> shutdown_at_exit ob \<and> \<not> shutdown_after_sleep ob \<and> tmux ob"

definition restart_choice :: "bool \<Rightarrow> string \<Rightarrow> exit_obs \<Rightarrow> wd_action" where
  "restart_choice isAttachMode name ob =
     (if isAttachMode \<and> hasTmuxSession ob then AttachSession name else SpawnSession name)"

text \<open>An exit of that kind, with the tmux session still there.\<close>

definition quiet_exit :: exit_obs where
  "quiet_exit = \<lparr>shutdown_at_head = False, shutdown_at_exit = False,
     shutdown_after_sleep = False, tmux = True, has_session = True, new_pid = 2\<rparr>"

section \<open>Scrollback\<close>

lemma total_size_simps [simp]:
  "total_size [] = 0"
  "total_size (c # cs) = int (length c) + total_size cs"
  "total_size (cs @ ds) = total_size cs + total_size ds"
  by (simp_all add: total_size_def)

lemma total_size_nonneg: "0 \<le> total_size cs"
  by (simp add: total_size_def)

lemma trim_front_stop:
  "\<not> (sz > MAX_SCROLLBACK \<and> length cs > 1) \<Longrightarrow> trim_front cs sz = (cs, sz)"
  by (subst trim_front.simps) auto

lemma trim_front_shift:
  "sz > MAX_SCROLLBACK \<Longrightarrow> rest \<noteq> [] \<Longrightarrow>
     trim_front (c # rest) sz = trim_front rest (sz - int (length c))"
  by (subst trim_front.simps) auto

lemma trim_front_spec:
  "trim_front cs sz = (cs', sz') \<Longrightarrow>
     \<exists>k. (k < length cs \<or> cs = []) \<and> cs' = drop k cs \<and> sz' = sz - total_size (take k cs) \<and>
         (\<forall>j<k. sz - total_size (take j cs) > MAX_SCROLLBACK) \<and>
         (sz' \<le> MAX_SCROLLBACK \<or> length cs' \<le> 1)"
proof (induction cs sz arbitrary: cs' sz' rule: trim_front.induct)
  case (1 chunks sz)
  show ?case
  proof (cases "sz > MAX_SCROLLBACK \<and> length chunks > 1")
    case False
    with "1.prems" have "cs' = chunks" "sz' = sz"
      by (simp_all add: trim_front_stop)
    with False show ?thesis
      by (intro exI [of _ 0]) auto
  next
    case True
    then obtain removed rest where ch: "chunks = removed # rest" and rest: "rest \<noteq> []"
      by (cases chunks) auto
    from True ch rest "1.prems" have rec: "trim_front rest (sz - int (length removed)) = (cs', sz')"
      by (simp add: trim_front_shift)
    from "1.IH" [OF True ch rec] obtain k where
      k: "k < length rest \<or> rest = []" "cs' = drop k rest"
         "sz' = sz - int (length removed) - total_size (take k rest)"
         "\<forall>j<k. sz - int (length removed) - total_size (take j rest) > MAX_SCROLLBACK"
         "sz' \<le> MAX_SCROLLBACK \<or> length cs' \<le> 1"
      by blast
    have "\<forall>j<Suc k. sz - total_size (take j chunks) > MAX_SCROLLBACK"
    proof (intro allI impI)
      fix j assume "j < Suc k"
      show "sz - total_size (take j chunks) > MAX_SCROLLBACK"
      proof (cases j)
        case 0
        with True show ?thesis by simp
      next
        case (Suc i)
        with \<open>j < Suc k\<close> k(4) ch show ?thesis by (simp add: algebra_simps)
      qed
    qed
    with k ch rest show ?thesis
      by (intro exI [of _ "Suc k"]) (auto simp: algebra_simps)
  qed
qed

lemma appendScrollback_spec:
  fixes h :: hub and buf :: buffer
  assumes "scrollback_consistent h"
  defines "all \<equiv> scrollbackChunks h @ [buf]"
  shows "\<exists>k\<le>length (scrollbackChunks h).
           scrollbackChunks (appendScrollback buf h) = drop k all \<and>
           scrollbackSize (appendScrollback buf h) = total_size (drop k all) \<and>
           (\<forall>j<k. total_size (drop j all) > MAX_SCROLLBACK) \<and>
           (total_size (drop k all) \<le> MAX_SCROLLBACK \<or> k = length (scrollbackChunks h))"
proof -
  define sz where "sz = scrollbackSize h + int (length buf)"
  obtain cs' sz' where t: "trim_front all sz = (cs', sz')"
    by (cases "trim_front all sz") auto
  have sz: "sz = total_size all"
    using assms by (simp add: sz_def scrollback_consistent_def)
  have split: "total_size all = total_size (take j all) + total_size (drop j all)" for j
    by (metis append_take_drop_id total_size_simps(3))
  from trim_front_spec [OF t] obtain k where
    k: "k < length all" "cs' = drop k all" "sz' = sz - total_size (take k all)"
       "\<forall>j<k. sz - total_size (take j all) > MAX_SCROLLBACK"
       "sz' \<le> MAX_SCROLLBACK \<or> length cs' \<le> 1"
    by (auto simp: all_def)
  have res: "scrollbackChunks (appendScrollback buf h) = cs'"
            "scrollbackSize (appendScrollback buf h) = sz'"
    using t by (simp_all add: appendScrollback_def all_def sz_def)
  have sz': "sz' = total_size (drop k all)"
    using k(3) sz split [of k] by simp
  have ev: "\<forall>j<k. total_size (drop j all) > MAX_SCROLLBACK"
  proof (intro allI impI)
    fix j assume "j < k"
    with k(4) have "sz - total_size (take j all) > MAX_SCROLLBACK" by blast
    with sz split [of j] show "total_size (drop j all) > MAX_SCROLLBACK" by simp
  qed
  have fin: "total_size (drop k all) \<le> MAX_SCROLLBACK \<or> k = length (scrollbackChunks h)"
    using k(1,2,5) sz' by (auto simp: all_def)
  from k(1) have "k \<le> length (scrollbackChunks h)" by (simp add: all_def)
  with res k(2) sz' ev fin show ?thesis by blast
qed

lemma appendScrollback_consistent:
  "scrollback_consistent h \<Longrightarrow> scrollback_consistent (appendScrollback buf h)"
  using appendScrollback_spec [of h buf] by (auto simp: scrollback_consistent_def)

lemma appendScrollback_suffix:
  "scrollback_consistent h \<Longrightarrow>
     suffix (scrollbackChunks (appendScrollback buf h)) (scrollbackChunks h @ [buf])"
  using appendScrollback_spec [of h buf] by (auto simp: suffix_drop)

lemma appendAll_snoc: "appendAll (ds @ [d]) h = appendScrollback d (appendAll ds h)"
  by (simp add: appendAll_def)

lemma appendAll_invariant:
  assumes "scrollbackChunks h0 = []" and "scrollbackSize h0 = 0"
  shows "scrollback_consistent (appendAll ds h0) \<and> suffix (scrollbackChunks (appendAll ds h0)) ds"
proof (induction ds rule: rev_induct)
  case Nil
  with assms show ?case by (simp add: appendAll_def scrollback_consistent_def)
next
  case (snoc d ds)
  then have c: "scrollback_consistent (appendAll ds h0)"
    and s: "suffix (scrollbackChunks (appendAll ds h0)) ds" by simp_all
  from appendScrollback_suffix [OF c, of d] s
  have "suffix (scrollbackChunks (appendAll (ds @ [d]) h0)) (ds @ [d])"
    unfolding appendAll_snoc by (meson suffix_order.trans suffix_append same_suffix_suffix)
  with appendScrollback_consistent [OF c, of d] show ?case
    by (simp add: appendAll_snoc)
qed

lemma suffix_concat: "suffix xs ys \<Longrightarrow> suffix (concat xs) (concat ys)"
  by (auto simp: suffix_def)

text \<open>
  Claim C2.  Start from an empty scrollback and append any chunks \<open>ds\<close>; then append
  one more chunk \<open>buf\<close>.  After that append the counter is the buffered size; the
  buffered size is at most the cap or exactly one chunk remains; the chunks that remain
  are those before the append with \<open>buf\<close> added and the \<open>k\<close> oldest removed, where
  every shorter removal would have left more than the cap, and the counter went down by
  the removed lengths; the newest chunk is kept; and the chunks are a suffix of all
  chunks appended, so their concatenation is a suffix of the output, in order.
\<close>

theorem scrollback_cap:
  assumes "scrollbackChunks h0 = []" and "scrollbackSize h0 = 0"
  shows "let h = appendAll ds h0; cs = scrollbackChunks h;
             h' = appendScrollback buf h; cs' = scrollbackChunks h';
             k = Suc (length cs) - length cs'
         in scrollbackSize h' = total_size cs'
          \<and> (total_size cs' \<le> MAX_SCROLLBACK \<or> length cs' = 1)
          \<and> k \<le> length cs \<and> cs' = drop k (cs @ [buf])
          \<and> (\<forall>j<k. total_size (drop j (cs @ [buf])) > MAX_SCROLLBACK)
          \<and> scrollbackSize h' = scrollbackSize h + int (length buf) - total_size (take k cs)
          \<and> last cs' = buf
          \<and> suffix cs' (ds @ [buf])
          \<and> suffix (concat cs') (concat (ds @ [buf]))
          \<and> MAX_SCROLLBACK = 512 * 1024"
proof -
  define h where "h = appendAll ds h0"
  define cs where "cs = scrollbackChunks h"
  define cs' where "cs' = scrollbackChunks (appendScrollback buf h)"
  from appendAll_invariant [OF assms, of ds]
  have c: "scrollback_consistent h" and s: "suffix cs ds"
    by (simp_all add: h_def cs_def)
  from appendScrollback_spec [OF c, of buf] obtain k where
    k: "k \<le> length cs" "cs' = drop k (cs @ [buf])"
       "scrollbackSize (appendScrollback buf h) = total_size (drop k (cs @ [buf]))"
       "\<forall>j<k. total_size (drop j (cs @ [buf])) > MAX_SCROLLBACK"
       "total_size (drop k (cs @ [buf])) \<le> MAX_SCROLLBACK \<or> k = length cs"
    by (auto simp: cs_def cs'_def)
  have len: "length cs' = Suc (length cs) - k" using k(1,2) by simp
  then have keq: "Suc (length cs) - length cs' = k" using k(1) by simp
  have sz: "scrollbackSize h = total_size cs" using c by (simp add: scrollback_consistent_def cs_def)
  have tk: "total_size cs = total_size (take k cs) + total_size (drop k cs)"
    by (metis append_take_drop_id total_size_simps(3))
  have 1: "scrollbackSize (appendScrollback buf h) = total_size cs'" using k(2,3) by simp
  have 2: "total_size cs' \<le> MAX_SCROLLBACK \<or> length cs' = 1" using k(1,2,5) len by auto
  have 3: "scrollbackSize (appendScrollback buf h)
             = scrollbackSize h + int (length buf) - total_size (take k cs)"
    using 1 k(1,2) sz tk by simp
  have 4: "last cs' = buf" using k(1,2) by simp
  have "suffix cs' (cs @ [buf])" unfolding k(2) by (rule suffix_drop)
  moreover have "suffix (cs @ [buf]) (ds @ [buf])" using s by simp
  ultimately have 5: "suffix cs' (ds @ [buf])" by (rule suffix_order.trans)
  from 5 have 6: "suffix (concat cs') (concat (ds @ [buf]))" by (rule suffix_concat)
  show ?thesis
    unfolding Let_def h_def [symmetric] cs_def [symmetric] cs'_def [symmetric] keq
    using 1 2 3 4 5 6 k(1,2,4) by (simp add: cs'_def MAX_SCROLLBACK_def)
qed

lemma length_chunk300k [simp]: "length chunk300k = 300000"
  by (simp add: chunk300k_def)

lemma appendScrollback_frame [simp]:
  "terminal (appendScrollback d h) = terminal h"
  "shellProc (appendScrollback d h) = shellProc h"
  "clients (appendScrollback d h) = clients h"
  "tmuxSession (appendScrollback d h) = tmuxSession h"
  "sink_writes (appendScrollback d h) = sink_writes h"
  "term_writes (appendScrollback d h) = term_writes h"
  by (simp_all add: appendScrollback_def Let_def split: prod.splits)

lemma appendScrollback_sink_writes_update:
  "appendScrollback d (h\<lparr>sink_writes := w\<rparr>) = (appendScrollback d h)\<lparr>sink_writes := w\<rparr>"
  by (simp add: appendScrollback_def Let_def split: prod.splits)

lemma broadcast_fold:
  "foldl (\<lambda>s c. client_write c d s) h cs = h\<lparr>sink_writes := sink_writes h @ map (\<lambda>c. (c, d)) cs\<rparr>"
  by (induction cs arbitrary: h) (simp_all add: client_write_def)

lemma on_data_eq:
  "on_data d h = (appendScrollback d h)\<lparr>sink_writes := sink_writes h @ map (\<lambda>c. (c, d)) (clients h)\<rparr>"
  by (simp add: on_data_def Let_def broadcast_fold)

lemma produce_snoc: "produce (ds @ [d]) h = on_data d (produce ds h)"
  by (simp add: produce_def)

lemma produce_eq:
  "produce ds h = (appendAll ds h)
     \<lparr>sink_writes := sink_writes h @ concat (map (\<lambda>d. map (\<lambda>c. (c, d)) (clients h)) ds)\<rparr>"
proof (induction ds rule: rev_induct)
  case Nil
  show ?case by (simp add: produce_def appendAll_def)
next
  case (snoc d ds)
  have cl: "clients (appendAll ds h) = clients h"
    by (induction ds rule: rev_induct) (simp_all add: appendAll_def)
  show ?case
    unfolding produce_snoc snoc.IH
    by (simp add: on_data_eq appendScrollback_sink_writes_update appendAll_snoc cl)
qed

lemma filter_broadcast:
  "distinct cs \<Longrightarrow>
     map snd (filter (\<lambda>w. fst w = c) (map (\<lambda>c'. (c', d)) cs)) = (if c \<in> set cs then [d] else [])"
  by (induction cs) auto

lemma filter_broadcasts:
  "distinct cs \<Longrightarrow>
     map snd (filter (\<lambda>w. fst w = c) (concat (map (\<lambda>d. map (\<lambda>c'. (c', d)) cs) ds)))
       = (if c \<in> set cs then ds else [])"
  by (induction ds) (simp_all add: filter_broadcast)

lemma appendAll_frame [simp]:
  "clients (appendAll ds h) = clients h"
  "sink_writes (appendAll ds h) = sink_writes h"
  "terminal (appendAll ds h) = terminal h"
  "term_writes (appendAll ds h) = term_writes h"
  by (induction ds rule: rev_induct) (simp_all add: appendAll_snoc, simp_all add: appendAll_def)

lemma received_produce:
  assumes "distinct (clients h)"
  shows "received c (produce ds h) = received c h @ (if c \<in> set (clients h) then ds else [])"
proof -
  have "received c (produce ds h)
        = map snd (filter (\<lambda>w. fst w = c)
            (sink_writes h @ concat (map (\<lambda>d. map (\<lambda>c. (c, d)) (clients h)) ds)))"
    by (simp add: produce_eq received_def)
  also have "\<dots> = received c h @ (if c \<in> set (clients h) then ds else [])"
    using filter_broadcasts [OF assms, of c ds] by (simp add: received_def)
  finally show ?thesis .
qed

lemma produce_scrollback:
  "scrollbackChunks (produce ds h) = scrollbackChunks (appendAll ds h)"
  "scrollbackSize (produce ds h) = scrollbackSize (appendAll ds h)"
  "clients (produce ds h) = clients h"
  by (simp_all add: produce_eq)

lemma appendAll_no_eviction:
  assumes "scrollbackChunks h0 = []" and "scrollbackSize h0 = 0"
  shows "total_size ds \<le> MAX_SCROLLBACK \<Longrightarrow>
           scrollbackChunks (appendAll ds h0) = ds \<and> scrollbackSize (appendAll ds h0) = total_size ds"
proof (induction ds rule: rev_induct)
  case Nil
  with assms show ?case by (simp add: appendAll_def)
next
  case (snoc d ds)
  from snoc.prems total_size_nonneg [of "[d]"] have "total_size ds \<le> MAX_SCROLLBACK" by simp
  with snoc.IH have ih: "scrollbackChunks (appendAll ds h0) = ds"
    "scrollbackSize (appendAll ds h0) = total_size ds" by simp_all
  from snoc.prems have "trim_front (ds @ [d]) (total_size ds + int (length d)) = (ds @ [d], total_size ds + int (length d))"
    by (intro trim_front_stop) simp
  with ih show ?case
    by (simp add: appendAll_snoc appendScrollback_def)
qed

lemma addClient_received:
  "received c (addClient c h) =
     received c h @ (if scrollbackSize h > 0 then [concat (scrollbackChunks h)] else [])"
  by (simp add: addClient_def send_scrollback_def clients_add_def client_write_def
      getScrollbackBuffer_def received_def)

lemma addClient_clients:
  "c \<notin> set (clients h) \<Longrightarrow> clients (addClient c h) = clients h @ [c]"
  by (simp add: addClient_def send_scrollback_def clients_add_def client_write_def)

lemma total_size_pos_iff: "total_size cs > 0 \<longleftrightarrow> concat cs \<noteq> []"
  by (simp add: total_size_def)

text \<open>
  Claim C1, as amended.  After a (re)start the process produces the chunks \<open>out\<close>;
  then a client \<open>c\<close> that is not yet registered calls \<open>addClient\<close>.  The client is
  first added to the broadcast set (no write has happened then) and then sent, in one
  write, the concatenation of the chunks the scrollback holds, or nothing when that is
  empty.  What it is sent is a suffix of the output, and all of it when the output is
  no longer than the cap.  Every chunk produced afterwards reaches the client exactly
  once, after the replay.
\<close>

theorem replay_on_register:
  assumes fresh: "scrollbackChunks h0 = []" "scrollbackSize h0 = 0"
      and cl: "distinct (clients h0)" "c \<notin> set (clients h0)"
  shows "let h = produce out h0;
             replay = concat (scrollbackChunks h);
             h' = addClient c h
         in clients h' = clients h0 @ [c]
          \<and> c \<in> set (clients (clients_add c h))
          \<and> sink_writes (clients_add c h) = sink_writes h
          \<and> h' = send_scrollback c (clients_add c h)
          \<and> received c h' = received c h0 @ (if replay = [] then [] else [replay])
          \<and> suffix replay (concat out)
          \<and> (total_size out \<le> MAX_SCROLLBACK \<longrightarrow> replay = concat out)
          \<and> received c (produce later h') = received c h' @ later"
proof -
  define h where "h = produce out h0"
  define h' where "h' = addClient c h"
  have clh: "clients h = clients h0" by (simp add: h_def produce_scrollback)
  from appendAll_invariant [OF fresh, of out]
  have cons: "scrollback_consistent h" and suf: "suffix (scrollbackChunks h) out"
    by (simp_all add: h_def scrollback_consistent_def produce_scrollback)
  have 1: "clients h' = clients h0 @ [c]"
    using cl(2) clh by (simp add: h'_def addClient_clients)
  have 2: "c \<in> set (clients (clients_add c h))" "sink_writes (clients_add c h) = sink_writes h"
    by (simp_all add: clients_add_def)
  have 3: "h' = send_scrollback c (clients_add c h)" by (simp add: h'_def addClient_def)
  have rh: "received c h = received c h0"
    using received_produce [OF cl(1), of c out] cl(2) by (simp add: h_def)
  have 4: "received c h' = received c h0 @
             (if concat (scrollbackChunks h) = [] then [] else [concat (scrollbackChunks h)])"
    using cons rh total_size_pos_iff [of "scrollbackChunks h"]
    by (simp add: h'_def addClient_received scrollback_consistent_def)
  have 5: "suffix (concat (scrollbackChunks h)) (concat out)"
    using suf by (rule suffix_concat)
  have 6: "total_size out \<le> MAX_SCROLLBACK \<longrightarrow> concat (scrollbackChunks h) = concat out"
    using appendAll_no_eviction [OF fresh, of out] by (simp add: h_def produce_scrollback)
  have "distinct (clients h')" "c \<in> set (clients h')" using 1 cl by simp_all
  then have 7: "received c (produce later h') = received c h' @ later"
    by (simp add: received_produce)
  show ?thesis
    unfolding Let_def h_def [symmetric] h'_def [symmetric]
    using 1 2 3 4 5 6 7 by blast
qed

lemma chunk300k_not_empty [simp]: "chunk300k \<noteq> []"
  by (simp add: chunk300k_def)

lemmas hub_eval = produce_def on_data_def appendScrollback_def appendAll_def Let_def
  trim_front_stop trim_front_shift MAX_SCROLLBACK_def initial_hub_def install_proc_def
  addClient_def clients_add_def send_scrollback_def client_write_def getScrollbackBuffer_def
  received_def total_size_def

text \<open>
  The theorem of C2 at a concrete input, where the third append evicts the two older
  chunks.
\<close>

theorem scrollback_cap_witness:
  "scrollbackChunks initial_hub = [] \<and> scrollbackSize initial_hub = 0 \<and>
   scrollbackChunks (appendScrollback chunk300k (appendAll [''ab'', chunk300k] initial_hub))
     = [chunk300k] \<and>
   scrollbackSize (appendScrollback chunk300k (appendAll [''ab'', chunk300k] initial_hub))
     = 300000"
  using scrollback_cap [of initial_hub "[''ab'', chunk300k]" chunk300k]
  by (simp add: hub_eval)

text \<open>
  Claim C1 as stated fails.  After a start the process produces two chunks of 300000
  bytes, 600000 bytes in all; a client that registers then is sent the newest 300000
  bytes only.  And at the time of the replay write the client is already in the
  broadcast set: \<open>clients.add\<close> is the first statement of \<open>addClient\<close>.
\<close>

theorem replay_all_output_counterexample:
  "spawnTerminal True 1 ''main'' initial_hub = Inr (install_proc ''main'' 1 initial_hub) \<and>
   received 7 (addClient 7 (produce [chunk300k, chunk300k] (install_proc ''main'' 1 initial_hub)))
     = [chunk300k] \<and>
   chunk300k \<noteq> concat [chunk300k, chunk300k] \<and>
   length (concat [chunk300k, chunk300k]) = 600000 \<and>
   length chunk300k = 300000 \<and>
   7 \<in> set (clients (clients_add 7
          (produce [chunk300k, chunk300k] (install_proc ''main'' 1 initial_hub)))) \<and>
   sink_writes (clients_add 7
          (produce [chunk300k, chunk300k] (install_proc ''main'' 1 initial_hub))) = []"
  by (simp add: hub_eval spawnTerminal_def)

theorem replay_on_register_witness:
  "scrollbackChunks initial_hub = [] \<and> scrollbackSize initial_hub = 0 \<and>
   distinct (clients initial_hub) \<and> 7 \<notin> set (clients initial_hub) \<and>
   received 7 (produce [''c''] (addClient 7 (produce [''a'', ''b''] initial_hub))) = [''ab'', ''c'']"
  using replay_on_register [of initial_hub 7 "[''a'', ''b'']" "[''c'']"]
  by (simp add: hub_eval)

section \<open>Authentication\<close>

lemmas auth_eval = authentication_def isLockedOut_def recordAuthFailure_def clearAuthFailures_def
  auth_failed_def timingSafeEqual_def Buffer_from_def verdict_of_def Let_def
  MAX_AUTH_FAILURES_def AUTH_LOCKOUT_MS_def

text \<open>
  Claim C7.  With no password configured the handler accepts every attempt, whatever
  the address, the method, the credential, the clock and the failure map; it makes no
  comparison and returns the map as it was.  The result does not mention the map, so an
  address that is locked out is accepted like any other.
\<close>

theorem no_auth_always_accepts:
  "authentication now1 now2 None ip ctx m =
     \<lparr>action = CtxAccept, logged = Some AcceptedNoAuth, compared = [], failures = m\<rparr>
   \<and> verdict_of (authentication now1 now2 None ip ctx m) = Some Accept
   \<and> failures (authentication now1 now2 None ip ctx m) = m"
  by (simp add: authentication_def verdict_of_def)

lemma no_auth_accepts_locked_out_example:
  "fst (isLockedOut 1000 ''10.0.0.9'' [''10.0.0.9'' \<mapsto> \<lparr>count = 5, lockedUntil = 60000\<rparr>]) \<and>
   verdict_of (authentication 1000 1000 None ''10.0.0.9'' \<lparr>ctx_method = ''password'', password = ''guess''\<rparr>
     [''10.0.0.9'' \<mapsto> \<lparr>count = 5, lockedUntil = 60000\<rparr>]) = Some Accept"
  by (simp add: auth_eval)

lemma wrong_first:
  assumes "wrong_password pw ctx" and "m ip = None"
  shows "verdict_of (authentication a b (Some pw) ip ctx m) = Some Reject"
    and "failures (authentication a b (Some pw) ip ctx m) = m(ip \<mapsto> \<lparr>count = 1, lockedUntil = 0\<rparr>)"
  using assms by (auto simp: auth_eval wrong_password_def)

lemma wrong_next:
  assumes "wrong_password pw ctx" and "m ip = Some \<lparr>count = n, lockedUntil = 0\<rparr>"
    and "k < 5" and "k = n + 1"
  shows "verdict_of (authentication a b (Some pw) ip ctx m) = Some Reject"
    and "failures (authentication a b (Some pw) ip ctx m)
           = m(ip \<mapsto> \<lparr>count = k, lockedUntil = 0\<rparr>)"
  using assms(1-3) unfolding assms(4) by (auto simp: auth_eval wrong_password_def)

lemma wrong_fifth:
  assumes "wrong_password pw ctx" and "m ip = Some \<lparr>count = 4, lockedUntil = 0\<rparr>"
  shows "verdict_of (authentication a b (Some pw) ip ctx m) = Some RejectLockedOut"
    and "failures (authentication a b (Some pw) ip ctx m)
           = m(ip \<mapsto> \<lparr>count = 5, lockedUntil = b + AUTH_LOCKOUT_MS\<rparr>)"
  using assms by (auto simp: auth_eval wrong_password_def)

lemma locked_probe:
  assumes "m ip = Some \<lparr>count = n, lockedUntil = u\<rparr>" and "5 \<le> n" and "t \<le> u"
  shows "verdict_of (authentication t t' (Some pw) ip ctx m) = Some RejectLockedOut"
    and "failures (authentication t t' (Some pw) ip ctx m) = m"
    and "compared (authentication t t' (Some pw) ip ctx m) = []"
  using assms by (auto simp: auth_eval)

lemma expired_correct:
  assumes "m ip = Some \<lparr>count = n, lockedUntil = u\<rparr>" and "0 < u" and "u < t"
  shows "verdict_of (authentication t t' (Some pw) ip \<lparr>ctx_method = ''password'', password = pw\<rparr> m)
           = Some Accept"
    and "failures (authentication t t' (Some pw) ip \<lparr>ctx_method = ''password'', password = pw\<rparr> m)
           = m(ip := None)"
  using assms by (auto simp: auth_eval)

lemma expired_wrong:
  assumes "m ip = Some \<lparr>count = n, lockedUntil = u\<rparr>" and "0 < u" and "u < t"
    and "wrong_password pw ctx"
  shows "verdict_of (authentication t t' (Some pw) ip ctx m) = Some Reject"
    and "failures (authentication t t' (Some pw) ip ctx m) = m(ip \<mapsto> \<lparr>count = 1, lockedUntil = 0\<rparr>)"
  using assms by (auto simp: auth_eval wrong_password_def)

lemma wrong_attempts:
  assumes fresh: "m ip = None"
    and wrong: "wrong_password pw c1 \<and> wrong_password pw c2 \<and> wrong_password pw c3 \<and>
                wrong_password pw c4 \<and> wrong_password pw c5"
  shows "attempts (Some pw) ip [(a1, b1, c1), (a2, b2, c2), (a3, b3, c3), (a4, b4, c4)] m
           = ([Some Reject, Some Reject, Some Reject, Some Reject],
              m(ip \<mapsto> \<lparr>count = 4, lockedUntil = 0\<rparr>))"
    and "attempts (Some pw) ip
           [(a1, b1, c1), (a2, b2, c2), (a3, b3, c3), (a4, b4, c4), (a5, b5, c5)] m
           = ([Some Reject, Some Reject, Some Reject, Some Reject, Some RejectLockedOut],
              m(ip \<mapsto> \<lparr>count = 5, lockedUntil = b5 + AUTH_LOCKOUT_MS\<rparr>))"
proof -
  define m1 where "m1 = m(ip \<mapsto> \<lparr>count = 1, lockedUntil = 0\<rparr>)"
  define m2 where "m2 = m(ip \<mapsto> \<lparr>count = 2, lockedUntil = 0\<rparr>)"
  define m3 where "m3 = m(ip \<mapsto> \<lparr>count = 3, lockedUntil = 0\<rparr>)"
  define m4 where "m4 = m(ip \<mapsto> \<lparr>count = 4, lockedUntil = 0\<rparr>)"
  define m5 where "m5 = m(ip \<mapsto> \<lparr>count = 5, lockedUntil = b5 + AUTH_LOCKOUT_MS\<rparr>)"
  from wrong have w: "wrong_password pw c1" "wrong_password pw c2" "wrong_password pw c3"
    "wrong_password pw c4" "wrong_password pw c5" by simp_all
  have s1: "verdict_of (authentication a1 b1 (Some pw) ip c1 m) = Some Reject"
           "failures (authentication a1 b1 (Some pw) ip c1 m) = m1"
    unfolding m1_def by (rule wrong_first [OF w(1)], rule fresh)+
  have s2v: "verdict_of (authentication a2 b2 (Some pw) ip c2 m1) = Some Reject"
    by (rule wrong_next(1) [where n = 1 and k = 2, OF w(2)]) (simp_all add: m1_def)
  have "failures (authentication a2 b2 (Some pw) ip c2 m1)
          = m1(ip \<mapsto> \<lparr>count = 2, lockedUntil = 0\<rparr>)"
    by (rule wrong_next(2) [where n = 1 and k = 2, OF w(2)]) (simp_all add: m1_def)
  then have s2f: "failures (authentication a2 b2 (Some pw) ip c2 m1) = m2"
    by (simp add: m1_def m2_def)
  have s3v: "verdict_of (authentication a3 b3 (Some pw) ip c3 m2) = Some Reject"
    by (rule wrong_next(1) [where n = 2 and k = 3, OF w(3)]) (simp_all add: m2_def)
  have "failures (authentication a3 b3 (Some pw) ip c3 m2)
          = m2(ip \<mapsto> \<lparr>count = 3, lockedUntil = 0\<rparr>)"
    by (rule wrong_next(2) [where n = 2 and k = 3, OF w(3)]) (simp_all add: m2_def)
  then have s3f: "failures (authentication a3 b3 (Some pw) ip c3 m2) = m3"
    by (simp add: m2_def m3_def)
  have s4v: "verdict_of (authentication a4 b4 (Some pw) ip c4 m3) = Some Reject"
    by (rule wrong_next(1) [where n = 3 and k = 4, OF w(4)]) (simp_all add: m3_def)
  have "failures (authentication a4 b4 (Some pw) ip c4 m3)
          = m3(ip \<mapsto> \<lparr>count = 4, lockedUntil = 0\<rparr>)"
    by (rule wrong_next(2) [where n = 3 and k = 4, OF w(4)]) (simp_all add: m3_def)
  then have s4f: "failures (authentication a4 b4 (Some pw) ip c4 m3) = m4"
    by (simp add: m3_def m4_def)
  have s5v: "verdict_of (authentication a5 b5 (Some pw) ip c5 m4) = Some RejectLockedOut"
    by (rule wrong_fifth(1) [OF w(5)]) (simp add: m4_def)
  have "failures (authentication a5 b5 (Some pw) ip c5 m4)
          = m4(ip \<mapsto> \<lparr>count = 5, lockedUntil = b5 + AUTH_LOCKOUT_MS\<rparr>)"
    by (rule wrong_fifth(2) [OF w(5)]) (simp add: m4_def)
  then have s5f: "failures (authentication a5 b5 (Some pw) ip c5 m4) = m5"
    by (simp add: m4_def m5_def)
  show "attempts (Some pw) ip [(a1, b1, c1), (a2, b2, c2), (a3, b3, c3), (a4, b4, c4)] m
           = ([Some Reject, Some Reject, Some Reject, Some Reject],
              m(ip \<mapsto> \<lparr>count = 4, lockedUntil = 0\<rparr>))"
    unfolding m4_def [symmetric] by (simp add: s1 s2v s2f s3v s3f s4v s4f)
  show "attempts (Some pw) ip
           [(a1, b1, c1), (a2, b2, c2), (a3, b3, c3), (a4, b4, c4), (a5, b5, c5)] m
           = ([Some Reject, Some Reject, Some Reject, Some Reject, Some RejectLockedOut],
              m(ip \<mapsto> \<lparr>count = 5, lockedUntil = b5 + AUTH_LOCKOUT_MS\<rparr>))"
    unfolding m5_def [symmetric] by (simp add: s1 s2v s2f s3v s3f s4v s4f s5v s5f)
qed

text \<open>
  Claim C3.  From an address with no record, five wrong passwords in a row are answered
  \<open>Reject\<close> four times and then \<open>RejectLockedOut\<close>, and leave the record at five
  failures, locked until the fifth failure's clock reading plus 60 seconds.  Until then
  every attempt, whatever it carries, is answered \<open>RejectLockedOut\<close> and leaves the map
  as it is.  After then the record is dropped and the attempt is judged afresh: the
  right password is accepted and leaves no record, a wrong one is answered \<open>Reject\<close>
  and counts as the first failure.
\<close>

theorem auth_lockout:
  assumes fresh: "m ip = None"
    and wrong: "wrong_password pw c1 \<and> wrong_password pw c2 \<and> wrong_password pw c3 \<and>
                wrong_password pw c4 \<and> wrong_password pw c5"
  shows "let m5 = m(ip \<mapsto> \<lparr>count = 5, lockedUntil = b5 + AUTH_LOCKOUT_MS\<rparr>);
             correct = \<lparr>ctx_method = ''password'', password = pw\<rparr>
         in attempts (Some pw) ip [(a1, b1, c1), (a2, b2, c2), (a3, b3, c3), (a4, b4, c4), (a5, b5, c5)] m
              = ([Some Reject, Some Reject, Some Reject, Some Reject, Some RejectLockedOut], m5)
          \<and> (\<forall>t t' ctx. t \<le> b5 + AUTH_LOCKOUT_MS \<longrightarrow>
                 verdict_of (authentication t t' (Some pw) ip ctx m5) = Some RejectLockedOut
               \<and> failures (authentication t t' (Some pw) ip ctx m5) = m5)
          \<and> (\<forall>t t'. b5 + AUTH_LOCKOUT_MS < t \<longrightarrow>
                 verdict_of (authentication t t' (Some pw) ip correct m5) = Some Accept
               \<and> failures (authentication t t' (Some pw) ip correct m5) ip = None)
          \<and> (\<forall>t t' ctx. b5 + AUTH_LOCKOUT_MS < t \<and> wrong_password pw ctx \<longrightarrow>
                 verdict_of (authentication t t' (Some pw) ip ctx m5) = Some Reject
               \<and> failures (authentication t t' (Some pw) ip ctx m5) ip
                    = Some \<lparr>count = 1, lockedUntil = 0\<rparr>)
          \<and> MAX_AUTH_FAILURES = 5 \<and> AUTH_LOCKOUT_MS = 60000"
proof -
  define m5 where "m5 = m(ip \<mapsto> \<lparr>count = 5, lockedUntil = b5 + AUTH_LOCKOUT_MS\<rparr>)"
  define correct where "correct = \<lparr>ctx_method = ''password'', password = pw\<rparr>"
  have run: "attempts (Some pw) ip [(a1, b1, c1), (a2, b2, c2), (a3, b3, c3), (a4, b4, c4), (a5, b5, c5)] m
              = ([Some Reject, Some Reject, Some Reject, Some Reject, Some RejectLockedOut], m5)"
    unfolding m5_def by (rule wrong_attempts(2) [where m = m and ip = ip, OF fresh wrong])
  have rec5: "m5 ip = Some \<lparr>count = 5, lockedUntil = b5 + AUTH_LOCKOUT_MS\<rparr>"
    by (simp add: m5_def)
  have pos: "0 < b5 + AUTH_LOCKOUT_MS" by (simp add: AUTH_LOCKOUT_MS_def)
  have within: "verdict_of (authentication t t' (Some pw) ip ctx m5) = Some RejectLockedOut
               \<and> failures (authentication t t' (Some pw) ip ctx m5) = m5"
    if "t \<le> b5 + AUTH_LOCKOUT_MS" for t t' ctx
    using locked_probe(1,2) [where m = m5 and ip = ip and n = 5 and u = "b5 + AUTH_LOCKOUT_MS" and t = t and t' = t' and pw = pw and ctx = ctx]
      rec5 that by simp
  have after_ok: "verdict_of (authentication t t' (Some pw) ip correct m5) = Some Accept
               \<and> failures (authentication t t' (Some pw) ip correct m5) ip = None"
    if "b5 + AUTH_LOCKOUT_MS < t" for t t'
    using expired_correct [where m = m5 and ip = ip and n = 5 and u = "b5 + AUTH_LOCKOUT_MS" and t = t and t' = t' and pw = pw]
      rec5 pos that by (simp add: correct_def)
  have after_wrong: "verdict_of (authentication t t' (Some pw) ip ctx m5) = Some Reject
               \<and> failures (authentication t t' (Some pw) ip ctx m5) ip
                    = Some \<lparr>count = 1, lockedUntil = 0\<rparr>"
    if "b5 + AUTH_LOCKOUT_MS < t" "wrong_password pw ctx" for t t' ctx
    using expired_wrong [where m = m5 and ip = ip and n = 5 and u = "b5 + AUTH_LOCKOUT_MS" and t = t and t' = t' and pw = pw and ctx = ctx]
      rec5 pos that by simp
  show ?thesis
    unfolding Let_def m5_def [symmetric] correct_def [symmetric]
    using run within after_ok after_wrong
    by (simp add: MAX_AUTH_FAILURES_def AUTH_LOCKOUT_MS_def)
qed

text \<open>The theorem of C3 at a concrete address and clock readings.\<close>

theorem auth_lockout_witness:
  "(Map.empty :: auth_failures) ''10.0.0.9'' = None \<and>
   wrong_password ''secret'' \<lparr>ctx_method = ''password'', password = ''guess''\<rparr> \<and>
   attempts (Some ''secret'') ''10.0.0.9''
     [(100, 100, \<lparr>ctx_method = ''password'', password = ''guess''\<rparr>),
      (200, 200, \<lparr>ctx_method = ''password'', password = ''guess''\<rparr>),
      (300, 300, \<lparr>ctx_method = ''password'', password = ''guess''\<rparr>),
      (400, 400, \<lparr>ctx_method = ''password'', password = ''guess''\<rparr>),
      (500, 500, \<lparr>ctx_method = ''password'', password = ''guess''\<rparr>)] Map.empty
     = ([Some Reject, Some Reject, Some Reject, Some Reject, Some RejectLockedOut],
        [''10.0.0.9'' \<mapsto> \<lparr>count = 5, lockedUntil = 60500\<rparr>]) \<and>
   verdict_of (authentication 60500 60500 (Some ''secret'') ''10.0.0.9''
      \<lparr>ctx_method = ''password'', password = ''secret''\<rparr>
      [''10.0.0.9'' \<mapsto> \<lparr>count = 5, lockedUntil = 60500\<rparr>]) = Some RejectLockedOut \<and>
   verdict_of (authentication 60501 60501 (Some ''secret'') ''10.0.0.9''
      \<lparr>ctx_method = ''password'', password = ''secret''\<rparr>
      [''10.0.0.9'' \<mapsto> \<lparr>count = 5, lockedUntil = 60500\<rparr>]) = Some Accept"
proof -
  let ?ip = "''10.0.0.9''"
  let ?guess = "\<lparr>ctx_method = ''password'', password = ''guess''\<rparr>"
  let ?m5 = "[?ip \<mapsto> \<lparr>count = 5, lockedUntil = 60500\<rparr>]"
  have fresh: "(Map.empty :: auth_failures) ?ip = None" by simp
  have w: "wrong_password ''secret'' ?guess" by (simp add: wrong_password_def)
  then have ws: "wrong_password ''secret'' ?guess \<and> wrong_password ''secret'' ?guess \<and>
      wrong_password ''secret'' ?guess \<and> wrong_password ''secret'' ?guess \<and>
      wrong_password ''secret'' ?guess" by simp
  note t = auth_lockout [where m = Map.empty and ip = ?ip and pw = "''secret''"
      and ?c1.0 = ?guess and ?c2.0 = ?guess and ?c3.0 = ?guess and ?c4.0 = ?guess
      and ?c5.0 = ?guess and ?a1.0 = 100 and ?b1.0 = 100 and ?a2.0 = 200 and ?b2.0 = 200
      and ?a3.0 = 300 and ?b3.0 = 300 and ?a4.0 = 400 and ?b4.0 = 400 and ?a5.0 = 500
      and ?b5.0 = 500, OF fresh ws, unfolded Let_def AUTH_LOCKOUT_MS_def]
  have five: "(500::nat) + 60000 = 60500" by simp
  note run = t [THEN conjunct1, unfolded five]
  note within = t [THEN conjunct2, THEN conjunct1, rule_format, unfolded five]
  note after = t [THEN conjunct2, THEN conjunct2, THEN conjunct1, rule_format, unfolded five]
  have le: "(60500::nat) \<le> 60500" and less: "(60500::nat) < 60501" by simp_all
  show ?thesis
    by (intro conjI fresh w run within [OF le, THEN conjunct1] after [OF less, THEN conjunct1])
qed

text \<open>
  Claim C9, as amended.  With a password configured and the address not locked out, a
  password whose length differs from the expected one is never passed to
  \<open>timingSafeEqual\<close>; the attempt is rejected and recorded as a failure.  The outcome
  is \<open>Reject\<close>, or \<open>RejectLockedOut\<close> when \<open>recordAuthFailure\<close> reports that this
  failure locks the address out (the fifth failure of a record that is not locked).
\<close>

theorem length_mismatch_rejected:
  assumes notlocked: "\<not> fst (isLockedOut now1 ip m)"
    and pwd: "ctx_method ctx = ''password''"
    and len: "length (Buffer_from (password ctx)) \<noteq> length (Buffer_from pw)"
  shows "let r = authentication now1 now2 (Some pw) ip ctx m;
             rf = recordAuthFailure now2 ip (snd (isLockedOut now1 ip m))
         in compared r = []
          \<and> action r = CtxReject
          \<and> logged r = Some (Failed (fst rf))
          \<and> failures r = snd rf
          \<and> verdict_of r = Some (if fst rf then RejectLockedOut else Reject)
          \<and> (m ip = None \<longrightarrow> verdict_of r = Some Reject)
          \<and> (\<forall>n. m ip = Some \<lparr>count = n, lockedUntil = 0\<rparr> \<longrightarrow>
                 verdict_of r = Some (if n + 1 \<ge> MAX_AUTH_FAILURES then RejectLockedOut else Reject))"
proof -
  define m1 where "m1 = snd (isLockedOut now1 ip m)"
  define rf where "rf = recordAuthFailure now2 ip m1"
  have r: "authentication now1 now2 (Some pw) ip ctx m = auth_failed now2 ip [] m1"
    using assms by (cases "isLockedOut now1 ip m") (auto simp: authentication_def m1_def)
  have af: "auth_failed now2 ip [] m1
      = \<lparr>action = CtxReject, logged = Some (Failed (fst rf)), compared = [], failures = snd rf\<rparr>"
    by (simp add: auth_failed_def rf_def split: prod.splits)
  have v: "verdict_of (auth_failed now2 ip [] m1) = Some (if fst rf then RejectLockedOut else Reject)"
    unfolding af by (simp add: verdict_of_def)
  have none: "fst rf = False" if "m ip = None"
    using that by (simp add: rf_def m1_def isLockedOut_def recordAuthFailure_def MAX_AUTH_FAILURES_def Let_def)
  have some: "fst rf = (n + 1 \<ge> MAX_AUTH_FAILURES)" if "m ip = Some \<lparr>count = n, lockedUntil = 0\<rparr>" for n
    using that by (simp add: rf_def m1_def isLockedOut_def recordAuthFailure_def Let_def)
  show ?thesis
    unfolding Let_def r m1_def [symmetric] rf_def [symmetric]
    using v none some by (auto simp: af verdict_of_def)
qed

theorem length_mismatch_rejected_witness:
  "\<not> fst (isLockedOut 100 ''10.0.0.9'' Map.empty) \<and>
   length (Buffer_from ''guess'') \<noteq> length (Buffer_from ''secret'') \<and>
   compared (authentication 100 100 (Some ''secret'') ''10.0.0.9''
      \<lparr>ctx_method = ''password'', password = ''guess''\<rparr> Map.empty) = [] \<and>
   verdict_of (authentication 100 100 (Some ''secret'') ''10.0.0.9''
      \<lparr>ctx_method = ''password'', password = ''guess''\<rparr> Map.empty) = Some Reject"
  using length_mismatch_rejected [of 100 "''10.0.0.9''" Map.empty
      "\<lparr>ctx_method = ''password'', password = ''guess''\<rparr>" "''secret''" 100]
  by (simp add: isLockedOut_def Buffer_from_def Let_def recordAuthFailure_def MAX_AUTH_FAILURES_def)

text \<open>
  Claim C10, as amended.  With a password configured and the address not locked out, an
  attempt by any method other than \<open>password\<close> is rejected with outcome \<open>Reject\<close>,
  logs nothing, compares nothing and records no failure.  The map afterwards is the one
  \<open>isLockedOut\<close> left: unchanged, except that an entry whose lockout has expired is
  deleted.
\<close>

theorem non_password_probe:
  assumes notlocked: "\<not> fst (isLockedOut now1 ip m)"
    and other: "ctx_method ctx \<noteq> ''password''"
  shows "let r = authentication now1 now2 (Some pw) ip ctx m
         in action r = CtxReject
          \<and> verdict_of r = Some Reject
          \<and> logged r = None
          \<and> compared r = []
          \<and> failures r = snd (isLockedOut now1 ip m)
          \<and> failures r =
              (case m ip of
                 None \<Rightarrow> m
               | Some rec \<Rightarrow>
                   if now1 > lockedUntil rec \<and> lockedUntil rec > 0 then m(ip := None) else m)
          \<and> (failures r ip = m ip \<or> failures r ip = None)"
  using assms
  by (cases "isLockedOut now1 ip m")
     (auto simp: authentication_def verdict_of_def isLockedOut_def split: option.splits if_splits)

theorem non_password_probe_witness:
  "\<not> fst (isLockedOut 500 ''10.0.0.9'' [''10.0.0.9'' \<mapsto> \<lparr>count = 4, lockedUntil = 0\<rparr>]) \<and>
   ''none'' \<noteq> ''password'' \<and>
   verdict_of (authentication 500 500 (Some ''secret'') ''10.0.0.9''
      \<lparr>ctx_method = ''none'', password = []\<rparr>
      [''10.0.0.9'' \<mapsto> \<lparr>count = 4, lockedUntil = 0\<rparr>]) = Some Reject \<and>
   failures (authentication 500 500 (Some ''secret'') ''10.0.0.9''
      \<lparr>ctx_method = ''none'', password = []\<rparr>
      [''10.0.0.9'' \<mapsto> \<lparr>count = 4, lockedUntil = 0\<rparr>])
     = [''10.0.0.9'' \<mapsto> \<lparr>count = 4, lockedUntil = 0\<rparr>]"
  using non_password_probe [of 500 "''10.0.0.9''" "[''10.0.0.9'' \<mapsto> \<lparr>count = 4, lockedUntil = 0\<rparr>]"
      "\<lparr>ctx_method = ''none'', password = []\<rparr>" 500 "''secret''"]
  by (simp add: isLockedOut_def Let_def MAX_AUTH_FAILURES_def)

lemma guesses_reach:
  "attempts (Some ''secret'') ''10.0.0.9''
     [(100, 100, \<lparr>ctx_method = ''password'', password = ''guess''\<rparr>),
      (200, 200, \<lparr>ctx_method = ''password'', password = ''guess''\<rparr>),
      (300, 300, \<lparr>ctx_method = ''password'', password = ''guess''\<rparr>),
      (400, 400, \<lparr>ctx_method = ''password'', password = ''guess''\<rparr>)] Map.empty
     = ([Some Reject, Some Reject, Some Reject, Some Reject],
        [''10.0.0.9'' \<mapsto> \<lparr>count = 4, lockedUntil = 0\<rparr>])"
  "attempts (Some ''secret'') ''10.0.0.9''
     [(100, 100, \<lparr>ctx_method = ''password'', password = ''guess''\<rparr>),
      (200, 200, \<lparr>ctx_method = ''password'', password = ''guess''\<rparr>),
      (300, 300, \<lparr>ctx_method = ''password'', password = ''guess''\<rparr>),
      (400, 400, \<lparr>ctx_method = ''password'', password = ''guess''\<rparr>),
      (500, 500, \<lparr>ctx_method = ''password'', password = ''guess''\<rparr>)] Map.empty
     = ([Some Reject, Some Reject, Some Reject, Some Reject, Some RejectLockedOut],
        [''10.0.0.9'' \<mapsto> \<lparr>count = 5, lockedUntil = 60500\<rparr>])"
proof -
  let ?ip = "''10.0.0.9''"
  let ?guess = "\<lparr>ctx_method = ''password'', password = ''guess''\<rparr>"
  have fresh: "(Map.empty :: auth_failures) ?ip = None" by simp
  have ws: "wrong_password ''secret'' ?guess \<and> wrong_password ''secret'' ?guess \<and>
      wrong_password ''secret'' ?guess \<and> wrong_password ''secret'' ?guess \<and>
      wrong_password ''secret'' ?guess" by (simp add: wrong_password_def)
  have five: "(500::nat) + AUTH_LOCKOUT_MS = 60500" by (simp add: AUTH_LOCKOUT_MS_def)
  show "attempts (Some ''secret'') ?ip
     [(100, 100, ?guess), (200, 200, ?guess), (300, 300, ?guess), (400, 400, ?guess)] Map.empty
     = ([Some Reject, Some Reject, Some Reject, Some Reject],
        [?ip \<mapsto> \<lparr>count = 4, lockedUntil = 0\<rparr>])"
    by (rule wrong_attempts(1) [where m = Map.empty and ip = ?ip, OF fresh ws])
  show "attempts (Some ''secret'') ?ip
     [(100, 100, ?guess), (200, 200, ?guess), (300, 300, ?guess), (400, 400, ?guess),
      (500, 500, ?guess)] Map.empty
     = ([Some Reject, Some Reject, Some Reject, Some Reject, Some RejectLockedOut],
        [?ip \<mapsto> \<lparr>count = 5, lockedUntil = 60500\<rparr>])"
    using wrong_attempts(2) [where m = Map.empty and ip = ?ip and ?b5.0 = 500, OF fresh ws]
    unfolding five .
qed

text \<open>
  Claim C9 as stated fails.  After four failed passwords the address is not locked
  out; a fifth password, of another length than the expected one, is never compared,
  and its outcome is \<open>RejectLockedOut\<close>, not \<open>Reject\<close>: the failure is recorded and is
  the one that locks the address out.
\<close>

theorem length_mismatch_fifth_counterexample:
  "attempts (Some ''secret'') ''10.0.0.9''
     [(100, 100, \<lparr>ctx_method = ''password'', password = ''guess''\<rparr>),
      (200, 200, \<lparr>ctx_method = ''password'', password = ''guess''\<rparr>),
      (300, 300, \<lparr>ctx_method = ''password'', password = ''guess''\<rparr>),
      (400, 400, \<lparr>ctx_method = ''password'', password = ''guess''\<rparr>)] Map.empty
     = ([Some Reject, Some Reject, Some Reject, Some Reject],
        [''10.0.0.9'' \<mapsto> \<lparr>count = 4, lockedUntil = 0\<rparr>]) \<and>
   \<not> fst (isLockedOut 500 ''10.0.0.9'' [''10.0.0.9'' \<mapsto> \<lparr>count = 4, lockedUntil = 0\<rparr>]) \<and>
   length (Buffer_from ''guess'') \<noteq> length (Buffer_from ''secret'') \<and>
   compared (authentication 500 500 (Some ''secret'') ''10.0.0.9''
      \<lparr>ctx_method = ''password'', password = ''guess''\<rparr>
      [''10.0.0.9'' \<mapsto> \<lparr>count = 4, lockedUntil = 0\<rparr>]) = [] \<and>
   verdict_of (authentication 500 500 (Some ''secret'') ''10.0.0.9''
      \<lparr>ctx_method = ''password'', password = ''guess''\<rparr>
      [''10.0.0.9'' \<mapsto> \<lparr>count = 4, lockedUntil = 0\<rparr>]) = Some RejectLockedOut \<and>
   verdict_of (authentication 500 500 (Some ''secret'') ''10.0.0.9''
      \<lparr>ctx_method = ''password'', password = ''guess''\<rparr>
      [''10.0.0.9'' \<mapsto> \<lparr>count = 4, lockedUntil = 0\<rparr>]) \<noteq> Some Reject"
  by (intro conjI guesses_reach(1)) (simp_all add: auth_eval)

text \<open>
  Claim C10 as stated fails.  Five failed passwords lock the address out until 60500.
  At 60501 the address is no longer locked out; a probe with the method \<open>none\<close> is
  rejected and records no failure, but the entry of the address is not left unchanged:
  \<open>isLockedOut\<close> deletes it.
\<close>

theorem non_password_probe_counterexample:
  "attempts (Some ''secret'') ''10.0.0.9''
     [(100, 100, \<lparr>ctx_method = ''password'', password = ''guess''\<rparr>),
      (200, 200, \<lparr>ctx_method = ''password'', password = ''guess''\<rparr>),
      (300, 300, \<lparr>ctx_method = ''password'', password = ''guess''\<rparr>),
      (400, 400, \<lparr>ctx_method = ''password'', password = ''guess''\<rparr>),
      (500, 500, \<lparr>ctx_method = ''password'', password = ''guess''\<rparr>)] Map.empty
     = ([Some Reject, Some Reject, Some Reject, Some Reject, Some RejectLockedOut],
        [''10.0.0.9'' \<mapsto> \<lparr>count = 5, lockedUntil = 60500\<rparr>]) \<and>
   \<not> fst (isLockedOut 60501 ''10.0.0.9'' [''10.0.0.9'' \<mapsto> \<lparr>count = 5, lockedUntil = 60500\<rparr>]) \<and>
   verdict_of (authentication 60501 60501 (Some ''secret'') ''10.0.0.9''
      \<lparr>ctx_method = ''none'', password = []\<rparr>
      [''10.0.0.9'' \<mapsto> \<lparr>count = 5, lockedUntil = 60500\<rparr>]) = Some Reject \<and>
   failures (authentication 60501 60501 (Some ''secret'') ''10.0.0.9''
      \<lparr>ctx_method = ''none'', password = []\<rparr>
      [''10.0.0.9'' \<mapsto> \<lparr>count = 5, lockedUntil = 60500\<rparr>]) ''10.0.0.9'' = None \<and>
   [''10.0.0.9'' \<mapsto> \<lparr>count = 5, lockedUntil = 60500\<rparr>] ''10.0.0.9''
     = Some \<lparr>count = 5, lockedUntil = 60500\<rparr>"
  by (intro conjI guesses_reach(2)) (simp_all add: auth_eval)

section \<open>Writing to the terminal, admission and the connection count\<close>

lemmas server_eval = run_def connection_def on_close_def on_error_def on_authentication_def
  on_shell_def on_stream_end_def on_stream_data_def on_idle_timeout_def initial_server_def
  initial_hub_def

text \<open>
  Claim C8, as amended.  \<open>writeToTerminal\<close> passes the bytes to the terminal handle
  exactly when a handle is installed, that is in every state but \<open>Absent\<close>; when
  \<open>Absent\<close> it changes nothing.  A handle stays installed after its process has
  ended, so in the state \<open>Exited\<close> the bytes are still passed to it.
\<close>

theorem write_forwarded_iff_handle:
  "term_writes (writeToTerminal d h)
     = term_writes h @ (case terminal h of None \<Rightarrow> [] | Some t \<Rightarrow> [(t, d)])
   \<and> (terminal h = None \<longleftrightarrow> session_state_of h = Absent)
   \<and> (session_state_of h = Absent \<longrightarrow> writeToTerminal d h = h)
   \<and> (session_state_of h \<noteq> Absent \<longrightarrow>
        (\<exists>t. terminal h = Some t \<and>
             writeToTerminal d h = h\<lparr>term_writes := term_writes h @ [(t, d)]\<rparr>))
   \<and> (session_state_of h = Exited \<longrightarrow>
        term_writes (writeToTerminal d h) \<noteq> term_writes h)"
  by (auto simp: writeToTerminal_def session_state_of_def split: option.splits if_splits)

text \<open>
  Claim C8 as stated fails.  After the process has ended the state is \<open>Exited\<close>, and
  a write is still passed to the handle of the departed process.
\<close>

theorem write_after_exit_counterexample:
  "session_state_of (proc_exits (install_proc ''main'' 1 initial_hub)) = Exited \<and>
   term_writes (proc_exits (install_proc ''main'' 1 initial_hub)) = [] \<and>
   term_writes (writeToTerminal ''ls'' (proc_exits (install_proc ''main'' 1 initial_hub)))
     = [(1, ''ls'')]"
  by (simp add: session_state_of_def proc_exits_def install_proc_def initial_hub_def
      writeToTerminal_def)

theorem write_forwarded_iff_handle_witness:
  "session_state_of (killTerminal (install_proc ''main'' 1 initial_hub)) = Absent \<and>
   writeToTerminal ''ls'' (killTerminal (install_proc ''main'' 1 initial_hub))
     = killTerminal (install_proc ''main'' 1 initial_hub) \<and>
   session_state_of (install_proc ''main'' 1 initial_hub) = Running \<and>
   term_writes (writeToTerminal ''ls'' (install_proc ''main'' 1 initial_hub)) = [(1, ''ls'')]"
  using write_forwarded_iff_handle [of "''ls''" "killTerminal (install_proc ''main'' 1 initial_hub)"]
    write_forwarded_iff_handle [of "''ls''" "install_proc ''main'' 1 initial_hub"]
  by (simp add: session_state_of_def killTerminal_def install_proc_def initial_hub_def)

text \<open>
  Claim C4, as amended.  The connection callback refuses exactly when
  \<open>activeConnections\<close> has reached the limit (10 when none is configured).  A refused
  connection is ended and leaves the counter alone.  An admitted connection is counted
  at once, at connect; authentication, shell, stream and idle-timeout events do not
  change the counter.
\<close>

theorem admission_at_connect:
  "(fst (connection maxConnections c s) = Refuse \<longleftrightarrow> activeConnections s \<ge> maxConnections)
   \<and> maxConnections_of None = 10
   \<and> (fst (connection maxConnections c s) = Refuse \<longrightarrow>
        snd (connection maxConnections c s) = s\<lparr>ended := ended s @ [c]\<rparr>)
   \<and> (fst (connection maxConnections c s) = Admit \<longrightarrow>
        snd (connection maxConnections c s)
          = s\<lparr>activeConnections := activeConnections s + 1, handlers := handlers s @ [c]\<rparr>)
   \<and> activeConnections (on_authentication pw c' ip now1 now2 ctx s) = activeConnections s
   \<and> activeConnections (on_shell c' sink s) = activeConnections s
   \<and> activeConnections (on_stream_end c' sink s) = activeConnections s
   \<and> activeConnections (on_stream_data c' d s) = activeConnections s
   \<and> activeConnections (on_idle_timeout c' s) = activeConnections s"
  by (simp add: connection_def on_authentication_def on_shell_def on_stream_end_def
      on_stream_data_def on_idle_timeout_def maxConnections_of_def DEFAULT_MAX_CONNECTIONS_def)

text \<open>
  Claim C4 as stated fails.  With a limit of 2, two connections that have connected and
  not authenticated (no client is registered with the hub, no attempt was made) take
  both places: a third connection is refused.
\<close>

theorem pending_connections_fill_cap_counterexample:
  "fst (connection 2 1 initial_server) = Admit \<and>
   fst (connection 2 2 (run 2 (Some ''secret'') [Connect 1] initial_server)) = Admit \<and>
   clients (term_hub (run 2 (Some ''secret'') [Connect 1, Connect 2] initial_server)) = [] \<and>
   authFailures (run 2 (Some ''secret'') [Connect 1, Connect 2] initial_server) = Map.empty \<and>
   activeConnections (run 2 (Some ''secret'') [Connect 1, Connect 2] initial_server) = 2 \<and>
   fst (connection 2 3 (run 2 (Some ''secret'') [Connect 1, Connect 2] initial_server)) = Refuse"
  by (simp add: server_eval)

theorem admission_at_connect_witness:
  "activeConnections (run 2 None [Connect 1, Connect 2] initial_server) = 2 \<and>
   fst (connection 2 3 (run 2 None [Connect 1, Connect 2] initial_server)) = Refuse \<and>
   fst (connection 2 3 (run 2 None [Connect 1, Connect 2, Close 1] initial_server)) = Admit"
  using admission_at_connect [of 2 3 "run 2 None [Connect 1, Connect 2] initial_server"]
    admission_at_connect [of 2 3 "run 2 None [Connect 1, Connect 2, Close 1] initial_server"]
  by (simp add: server_eval)

text \<open>
  Claim C5 fails on the code.  A connection that ends with \<open>error\<close> followed by
  \<open>close\<close> is counted down twice: the counter is -1 with no connection open, and
  with a limit of 2 three connections are then admitted side by side.
\<close>

theorem error_then_close_decrements_twice:
  "activeConnections (run 2 None [Connect 1] initial_server) = 1 \<and>
   activeConnections (run 2 None [Connect 1, Error 1, Close 1] initial_server) = - 1 \<and>
   fst (connection 2 2 (run 2 None [Connect 1, Error 1, Close 1] initial_server)) = Admit \<and>
   fst (connection 2 3 (run 2 None [Connect 1, Error 1, Close 1, Connect 2] initial_server)) = Admit \<and>
   fst (connection 2 4 (run 2 None [Connect 1, Error 1, Close 1, Connect 2, Connect 3] initial_server))
     = Admit"
  by (simp add: server_eval)

section \<open>Restarts\<close>

lemma restart_benign:
  "tmux ob \<Longrightarrow>
     restart am name ob h = (restart_choice am name ob, Inr (install_proc name (new_pid ob) h))"
  by (simp add: restart_def restart_choice_def attachTerminal_def spawnTerminal_def)

lemma shellProc_install [simp]: "shellProc (install_proc name p h) \<noteq> None"
  by (simp add: install_proc_def)

lemma shellProc_proc_exits [simp]: "shellProc (proc_exits h) = None \<longleftrightarrow> shellProc h = None"
  by (simp add: proc_exits_def)

lemma watchdog_benign:
  assumes "\<forall>ob\<in>set obs. benign ob" and "shellProc h \<noteq> None" and "n \<le> MAX_RESTARTS"
  shows "fst (watchdog am name n obs h)
           = (if n + length obs > MAX_RESTARTS then GivenUp else Watching)
       \<and> fst (snd (watchdog am name n obs h))
           = concat (map (\<lambda>(attempt, ob). [Sleep (backoff_delay attempt), restart_choice am name ob])
               (zip [n + 1..<MAX_RESTARTS + 1] obs))
       \<and> snd (snd (watchdog am name n obs h))
           = (let hk = foldl (\<lambda>s ob. install_proc name (new_pid ob) (proc_exits s)) h
                         (take (MAX_RESTARTS - n) obs)
              in if n + length obs > MAX_RESTARTS then proc_exits hk else hk)"
  using assms
proof (induction obs arbitrary: n h)
  case Nil
  then show ?case by (simp add: watchdog.simps)
next
  case (Cons ob obs)
  from Cons.prems(1) have b: "benign ob" and rest: "\<forall>ob\<in>set obs. benign ob" by simp_all
  show ?case
  proof (cases "n + 1 > MAX_RESTARTS")
    case True
    with Cons.prems(3) have "MAX_RESTARTS - n = 0" by simp
    with True b Cons.prems(2,3) show ?thesis
      by (auto simp: watchdog.simps benign_def)
  next
    case False
    then have n: "n + 1 \<le> MAX_RESTARTS" by simp
    define h' where "h' = install_proc name (new_pid ob) (proc_exits h)"
    have ih: "fst (watchdog am name (n + 1) obs h')
           = (if n + 1 + length obs > MAX_RESTARTS then GivenUp else Watching)
       \<and> fst (snd (watchdog am name (n + 1) obs h'))
           = concat (map (\<lambda>(attempt, ob). [Sleep (backoff_delay attempt), restart_choice am name ob])
               (zip [n + 1 + 1..<MAX_RESTARTS + 1] obs))
       \<and> snd (snd (watchdog am name (n + 1) obs h'))
           = (let hk = foldl (\<lambda>s ob. install_proc name (new_pid ob) (proc_exits s)) h'
                         (take (MAX_RESTARTS - (n + 1)) obs)
              in if n + 1 + length obs > MAX_RESTARTS then proc_exits hk else hk)"
      by (rule Cons.IH [OF rest _ n]) (simp add: h'_def)
    have upt: "[n + 1..<MAX_RESTARTS + 1] = (n + 1) # [n + 1 + 1..<MAX_RESTARTS + 1]"
      using n by (simp add: upt_conv_Cons)
    have tk: "take (MAX_RESTARTS - n) (ob # obs) = ob # take (MAX_RESTARTS - (n + 1)) obs"
    proof -
      from n have "MAX_RESTARTS - n = Suc (MAX_RESTARTS - (n + 1))" by simp
      then show ?thesis by simp
    qed
    have step: "watchdog am name n (ob # obs) h =
        (case watchdog am name (n + 1) obs h' of
           (st, acts, h'') \<Rightarrow>
             (st, Sleep (backoff_delay (n + 1)) # restart_choice am name ob # acts, h''))"
      using b False Cons.prems(2) by (auto simp: watchdog.simps benign_def restart_benign h'_def)
    show ?thesis
      unfolding step upt tk using ih
      by (cases "watchdog am name (n + 1) obs h'") (auto simp: h'_def Let_def)
  qed
qed

lemma restart_calls:
  "tmux ob \<Longrightarrow>
     snd (restart am name ob s)
       = (if am \<and> hasTmuxSession ob
          then attachTerminal (tmux ob) (new_pid ob) name s
          else spawnTerminal (tmux ob) (new_pid ob) name s)
   \<and> snd (restart am name ob s) = Inr (install_proc name (new_pid ob) s)"
  by (simp add: restart_def attachTerminal_def spawnTerminal_def)

lemma restarted_hub:
  "obs \<noteq> [] \<Longrightarrow>
     foldl (\<lambda>s ob. install_proc name (new_pid ob) (proc_exits s)) h obs
       = install_proc name (new_pid (last obs))
           (proc_exits (foldl (\<lambda>s ob. install_proc name (new_pid ob) (proc_exits s)) h (butlast obs)))"
  by (induction obs rule: rev_induct) simp_all

lemma install_proc_fields:
  "terminal (install_proc name p s) = Some p"
  "tmuxSession (install_proc name p s) = Some name"
  "scrollbackChunks (install_proc name p s) = []"
  "scrollbackSize (install_proc name p s) = 0"
  "session_state_of (install_proc name p s) = Running"
  "clients (install_proc name p s) = clients s"
  by (simp_all add: install_proc_def session_state_of_def)

text \<open>
  Claim C6.  Let the process exit again and again with no shutdown requested and tmux
  found.  Starting from \<open>restartCount = 0\<close>, exit number \<open>n\<close> (for \<open>n\<close> from 1 to
  10) is followed by a sleep of \<open>min (1000 * 2 ^ n) 60000\<close> milliseconds and then by
  the restart: the call of \<open>attachTerminal\<close> if the relay is in attach mode and the
  session still exists, and of \<open>spawnTerminal\<close> otherwise, on the hub as the exit left
  it; the call installs the new process.  So the hub at the end is the starting hub
  taken through an exit and a restart for each of the first ten exits, and through one
  more exit and no restart if there is an eleventh.  From the eleventh exit on the loop
  has given up and nothing more is done; with ten exits or fewer it is watching, and
  after at least one exit the hub holds the handle of the last restart, a running
  process, the session name and an empty scrollback.  The delays of attempts 1, 2, 3, 4
  and 7 are 2000, 4000, 8000, 16000 and 60000.
\<close>

theorem watchdog_backoff:
  assumes "\<forall>ob\<in>set obs. benign ob" and "shellProc h \<noteq> None"
  shows "fst (watchdog isAttachMode name 0 obs h)
           = (if length obs > MAX_RESTARTS then GivenUp else Watching)
       \<and> fst (snd (watchdog isAttachMode name 0 obs h))
           = concat (map (\<lambda>(attempt, ob).
                           [Sleep (min (1000 * 2 ^ attempt) 60000),
                            if isAttachMode \<and> hasTmuxSession ob
                            then AttachSession name else SpawnSession name])
               (zip [1..<11] obs))
       \<and> (\<forall>ob\<in>set obs. \<forall>s.
             snd (restart isAttachMode name ob s)
               = (if isAttachMode \<and> hasTmuxSession ob
                  then attachTerminal (tmux ob) (new_pid ob) name s
                  else spawnTerminal (tmux ob) (new_pid ob) name s)
           \<and> snd (restart isAttachMode name ob s) = Inr (install_proc name (new_pid ob) s))
       \<and> snd (snd (watchdog isAttachMode name 0 obs h))
           = (let hk = foldl (\<lambda>s ob. install_proc name (new_pid ob) (proc_exits s)) h
                         (take 10 obs)
              in if length obs > MAX_RESTARTS then proc_exits hk else hk)
       \<and> (obs \<noteq> [] \<and> length obs \<le> MAX_RESTARTS \<longrightarrow>
             terminal (snd (snd (watchdog isAttachMode name 0 obs h))) = Some (new_pid (last obs))
           \<and> session_state_of (snd (snd (watchdog isAttachMode name 0 obs h))) = Running
           \<and> tmuxSession (snd (snd (watchdog isAttachMode name 0 obs h))) = Some name
           \<and> scrollbackChunks (snd (snd (watchdog isAttachMode name 0 obs h))) = [])
       \<and> map backoff_delay [1, 2, 3, 4, 7] = [2000, 4000, 8000, 16000, 60000]
       \<and> MAX_RESTARTS = 10"
proof -
  let ?F = "\<lambda>s ob. install_proc name (new_pid ob) (proc_exits s)"
  let ?h' = "snd (snd (watchdog isAttachMode name 0 obs h))"
  have "0 \<le> MAX_RESTARTS" by simp
  from watchdog_benign [OF assms this, of isAttachMode name]
  have st: "fst (watchdog isAttachMode name 0 obs h)
           = (if length obs > MAX_RESTARTS then GivenUp else Watching)"
    and acts0: "fst (snd (watchdog isAttachMode name 0 obs h))
           = concat (map (\<lambda>(attempt, ob). [Sleep (backoff_delay attempt), restart_choice isAttachMode name ob])
               (zip [0 + 1..<MAX_RESTARTS + 1] obs))"
    and hub0: "?h' = (let hk = foldl ?F h (take (MAX_RESTARTS - 0) obs)
              in if 0 + length obs > MAX_RESTARTS then proc_exits hk else hk)"
    by simp_all
  have upt: "[0 + 1..<MAX_RESTARTS + 1] = [1..<11]" by (simp add: MAX_RESTARTS_def)
  have lam: "(\<lambda>(attempt, ob). [Sleep (backoff_delay attempt), restart_choice isAttachMode name ob])
      = (\<lambda>(attempt, ob). [Sleep (min (1000 * 2 ^ attempt) 60000),
                            if isAttachMode \<and> hasTmuxSession ob
                            then AttachSession name else SpawnSession name])"
    by (simp add: backoff_delay_def restart_choice_def fun_eq_iff)
  have acts: "fst (snd (watchdog isAttachMode name 0 obs h))
           = concat (map (\<lambda>(attempt, ob).
                           [Sleep (min (1000 * 2 ^ attempt) 60000),
                            if isAttachMode \<and> hasTmuxSession ob
                            then AttachSession name else SpawnSession name])
               (zip [1..<11] obs))"
    using acts0 unfolding upt lam .
  have hub: "?h' = (let hk = foldl ?F h (take 10 obs)
              in if length obs > MAX_RESTARTS then proc_exits hk else hk)"
    using hub0 by (simp add: MAX_RESTARTS_def)
  have calls: "\<forall>ob\<in>set obs. \<forall>s.
             snd (restart isAttachMode name ob s)
               = (if isAttachMode \<and> hasTmuxSession ob
                  then attachTerminal (tmux ob) (new_pid ob) name s
                  else spawnTerminal (tmux ob) (new_pid ob) name s)
           \<and> snd (restart isAttachMode name ob s) = Inr (install_proc name (new_pid ob) s)"
  proof (intro ballI allI)
    fix ob s assume "ob \<in> set obs"
    with assms(1) have "tmux ob" by (simp add: benign_def)
    then show "snd (restart isAttachMode name ob s)
               = (if isAttachMode \<and> hasTmuxSession ob
                  then attachTerminal (tmux ob) (new_pid ob) name s
                  else spawnTerminal (tmux ob) (new_pid ob) name s)
           \<and> snd (restart isAttachMode name ob s) = Inr (install_proc name (new_pid ob) s)"
      by (rule restart_calls)
  qed
  have last: "terminal ?h' = Some (new_pid (last obs))
           \<and> session_state_of ?h' = Running
           \<and> tmuxSession ?h' = Some name
           \<and> scrollbackChunks ?h' = []"
    if "obs \<noteq> []" "length obs \<le> MAX_RESTARTS"
  proof -
    from that(2) have "take 10 obs = obs" by (simp add: MAX_RESTARTS_def)
    with hub that(2) have "?h' = foldl ?F h obs" by (simp add: Let_def)
    with restarted_hub [OF that(1), of name h] show ?thesis
      by (simp add: install_proc_fields)
  qed
  have delays: "map backoff_delay [1, 2, 3, 4, 7] = [2000, 4000, 8000, 16000, 60000]"
    by (simp add: backoff_delay_def)
  have mx: "MAX_RESTARTS = 10" by (simp add: MAX_RESTARTS_def)
  from st acts calls hub last delays mx show ?thesis by blast
qed

theorem watchdog_backoff_witness:
  "benign quiet_exit \<and>
   shellProc (install_proc ''main'' 1 initial_hub) \<noteq> None \<and>
   fst (watchdog True ''main'' 0 (replicate 11 quiet_exit) (install_proc ''main'' 1 initial_hub))
     = GivenUp \<and>
   fst (watchdog True ''main'' 0 (replicate 10 quiet_exit) (install_proc ''main'' 1 initial_hub))
     = Watching \<and>
   fst (snd (watchdog True ''main'' 0 [quiet_exit, quiet_exit] (install_proc ''main'' 1 initial_hub)))
     = [Sleep 2000, AttachSession ''main'', Sleep 4000, AttachSession ''main''] \<and>
   terminal (snd (snd (watchdog True ''main'' 0 [quiet_exit, quiet_exit]
     (install_proc ''main'' 1 initial_hub)))) = Some 2 \<and>
   session_state_of (snd (snd (watchdog True ''main'' 0 [quiet_exit, quiet_exit]
     (install_proc ''main'' 1 initial_hub)))) = Running"
proof -
  have b: "benign quiet_exit" by (simp add: benign_def quiet_exit_def)
  have p: "shellProc (install_proc ''main'' 1 initial_hub) \<noteq> None" by simp
  have all: "\<forall>ob\<in>set (replicate n quiet_exit). benign ob" for n using b by simp
  have all2: "\<forall>ob\<in>set [quiet_exit, quiet_exit]. benign ob" using b by simp
  have hs: "hasTmuxSession quiet_exit" by (simp add: hasTmuxSession_def quiet_exit_def)
  have np: "new_pid quiet_exit = 2" by (simp add: quiet_exit_def)
  have up: "[1..<11] = [1, 2, 3, 4, 5, 6, 7, 8, 9, 10::nat]" by (simp add: upt_conv_Cons)
  note t11 = watchdog_backoff [OF all [of 11] p, where isAttachMode = True and name = "''main''"]
  note t10 = watchdog_backoff [OF all [of 10] p, where isAttachMode = True and name = "''main''"]
  note t2 = watchdog_backoff [OF all2 p, where isAttachMode = True and name = "''main''"]
  from t11 [THEN conjunct1]
  have 1: "fst (watchdog True ''main'' 0 (replicate 11 quiet_exit) (install_proc ''main'' 1 initial_hub))
     = GivenUp" by (simp add: MAX_RESTARTS_def)
  from t10 [THEN conjunct1]
  have 2: "fst (watchdog True ''main'' 0 (replicate 10 quiet_exit) (install_proc ''main'' 1 initial_hub))
     = Watching" by (simp add: MAX_RESTARTS_def)
  from t2 [THEN conjunct2, THEN conjunct1]
  have 3: "fst (snd (watchdog True ''main'' 0 [quiet_exit, quiet_exit] (install_proc ''main'' 1 initial_hub)))
     = [Sleep 2000, AttachSession ''main'', Sleep 4000, AttachSession ''main'']"
    unfolding up by (simp add: hs)
  have ne: "[quiet_exit, quiet_exit] \<noteq> [] \<and> length [quiet_exit, quiet_exit] \<le> MAX_RESTARTS"
    by (simp add: MAX_RESTARTS_def)
  from t2 [THEN conjunct2, THEN conjunct2, THEN conjunct2, THEN conjunct2, THEN conjunct1,
      THEN mp, OF ne]
  have 4: "terminal (snd (snd (watchdog True ''main'' 0 [quiet_exit, quiet_exit]
       (install_proc ''main'' 1 initial_hub)))) = Some 2"
    and 5: "session_state_of (snd (snd (watchdog True ''main'' 0 [quiet_exit, quiet_exit]
       (install_proc ''main'' 1 initial_hub)))) = Running"
    by (simp_all add: np)
  from b p 1 2 3 4 5 show ?thesis by blast
qed

end
